theory Spec2Isabelle
  imports Complex_Main "HOL-Library.Log_Nat"
begin

unbundle bit_operations_syntax

section \<open>Pace lights: the event model and the render loops of GUI1.py\<close>

text \<open>
  Python's unbounded integers are \<^typ>\<open>int\<close>.  A Python float is a rational number
  (\<^typ>\<open>rat\<close>).  Positions, distances and times are computed exactly: every comparison,
  floor and truncation of the render loops is the one the source performs, taken on
  the exact value.  The brightness levels of the trail are computed as the source
  computes them, in IEEE double precision, each operation rounded to the nearest
  double (\<open>py_float\<close>): there the rounding decides which integer a channel is.
  Every exception the source can raise is a value of \<open>py_error\<close>.
\<close>

subsection \<open>Errors and Python primitives\<close>

datatype py_error = ZeroDivisionError | ValueError string | IndexError | SinkError

text \<open>\<open>int(x)\<close> on a float truncates towards zero.\<close>

definition py_int :: "rat \<Rightarrow> int" where
  "py_int x = (if 0 \<le> x then \<lfloor>x\<rfloor> else \<lceil>x\<rceil>)"

text \<open>Float division raises on a zero divisor.\<close>

definition py_div :: "rat \<Rightarrow> rat \<Rightarrow> py_error + rat" where
  "py_div a b = (if b = 0 then Inl ZeroDivisionError else Inr (a / b))"

text \<open>\<open>x % n\<close> for a float \<open>x\<close> and an integer \<open>n\<close>: the sign follows the divisor.\<close>

definition py_fmod :: "rat \<Rightarrow> int \<Rightarrow> py_error + rat" where
  "py_fmod x n =
     (if n = 0 then Inl ZeroDivisionError
      else Inr (x - of_int n * of_int \<lfloor>x / of_int n\<rfloor>))"

text \<open>\<open>xs[i]\<close>: negative indices count from the end, anything else out of range raises.\<close>

definition py_index :: "'a list \<Rightarrow> int \<Rightarrow> py_error + 'a" where
  "py_index xs i =
     (if 0 \<le> i \<and> i < int (length xs) then Inr (xs ! nat i)
      else if i < 0 \<and> - int (length xs) \<le> i then Inr (xs ! nat (int (length xs) + i))
      else Inl IndexError)"

text \<open>
  The double nearest to a rational, ties to the even significand: a double has 53
  significant bits, so between \<open>2^e\<close> and \<open>2^(e+1)\<close> the doubles are the multiples of
  \<open>2^(e-52)\<close>, and below \<open>2^(-1022)\<close> they are the multiples of \<open>2^(-1074)\<close>.
  \<open>binary_exponent x\<close> is that \<open>e\<close> for a positive \<open>x\<close>.  The largest double is not
  modelled: the trail computation stays between 0 and its largest colour channel, and
  the colour chooser of the source yields channels from 0 to 255.
\<close>

definition round_half_even :: "rat \<Rightarrow> int" where
  "round_half_even x =
     (let f = \<lfloor>x\<rfloor>; r = x - of_int f
      in if r < 1 / 2 then f else if 1 / 2 < r then f + 1 else if even f then f else f + 1)"

definition binary_exponent :: "rat \<Rightarrow> int" where
  "binary_exponent x =
     (case quotient_of x of (p, q) \<Rightarrow>
        (let d = bitlen p - bitlen q in if 2 powi d \<le> x then d else d - 1))"

definition double_ulp :: "rat \<Rightarrow> rat" where
  "double_ulp x = 2 powi (max (binary_exponent \<bar>x\<bar>) (- 1022) - 52)"

definition py_float :: "rat \<Rightarrow> rat" where
  "py_float x =
     (if x = 0 then 0 else of_int (round_half_even (x / double_ulp x)) * double_ulp x)"

text \<open>For running the model: the same rounding on the numerator and denominator.\<close>

definition round_div :: "int \<Rightarrow> int \<Rightarrow> int" where
  "round_div a b =
     (let f = a div b; r = 2 * (a mod b)
      in if r < b then f else if b < r then f + 1 else if even f then f else f + 1)"

definition float_of_quotient :: "int \<Rightarrow> int \<Rightarrow> rat" where
  "float_of_quotient p q =
     (if p = 0 then 0
      else
        (let a = \<bar>p\<bar>; d = bitlen a - bitlen q;
             e = (if (if 0 \<le> d then 2 ^ nat d * q \<le> a else q \<le> 2 ^ nat (- d) * a)
                  then d else d - 1);
             s = max e (- 1022) - 52
         in if 0 \<le> s then of_int (round_div p (q * 2 ^ nat s) * 2 ^ nat s)
            else Fract (round_div (p * 2 ^ nat (- s)) q) (2 ^ nat (- s))))"

text \<open>\<open>range(n, -1, -1)\<close>: \<open>n, n - 1, ..., 0\<close>, empty when \<open>n < 0\<close>.\<close>

definition range_down :: "int \<Rightarrow> int list" where
  "range_down n = rev [0..n]"

subsection \<open>Configuration\<close>

definition MAX_FPS :: int where
  "MAX_FPS = 120"

definition COLOR_ORDER :: string where
  "COLOR_ORDER = ''GRB''"

definition frame_dt_target :: rat where
  "frame_dt_target = 1 / of_int MAX_FPS"

subsection \<open>Colours\<close>

type_synonym rgb = "int \<times> int \<times> int"

text \<open>The order strings of the source are upper case already, so \<open>order.upper()\<close> is
  the identity on them.\<close>

definition pack_color :: "int \<Rightarrow> int \<Rightarrow> int \<Rightarrow> string \<Rightarrow> int" where
  "pack_color r0 g0 b0 order =
     (let r = max 0 (min 255 r0); g = max 0 (min 255 g0); b = max 0 (min 255 b0)
      in if order = ''RGB'' then push_bit 16 r OR push_bit 8 g OR b
         else if order = ''GRB'' then push_bit 16 g OR push_bit 8 r OR b
         else if order = ''BRG'' then push_bit 16 b OR push_bit 8 r OR g
         else push_bit 16 r OR push_bit 8 g OR b)"

definition clamp_byte :: "int \<Rightarrow> int" where
  "clamp_byte x = (if x < 0 then 0 else if x > 255 then 255 else x)"

definition blend_additive :: "rgb \<Rightarrow> rgb \<Rightarrow> rgb" where
  "blend_additive c1 c2 =
     (case c1 of (r1, g1, b1) \<Rightarrow> case c2 of (r2, g2, b2) \<Rightarrow>
        (clamp_byte (r1 + r2), clamp_byte (g1 + g2), clamp_byte (b1 + b2)))"

subsection \<open>PaceEvent\<close>

record pace_event =
  name :: string
  distance_m :: int
  rail_leds :: int
  target_time_s :: rat
  laps_m :: int
  color :: rgb
  trail_len :: int
  splits_100 :: "rat list option"
  start_led :: "int option"

definition pace_mps :: "pace_event \<Rightarrow> rat" where
  "pace_mps ev =
     (if target_time_s ev > 0 then of_int (distance_m ev) / target_time_s ev else 0)"

definition leds_per_meter :: "pace_event \<Rightarrow> py_error + rat" where
  "leds_per_meter ev = py_div (of_int (rail_leds ev)) (of_int (laps_m ev))"

definition total_led_traversals :: "pace_event \<Rightarrow> py_error + int" where
  "total_led_traversals ev =
     (case py_div (of_int (distance_m ev)) (of_int (laps_m ev)) of
        Inl e \<Rightarrow> Inl e
      | Inr q \<Rightarrow> Inr (max 1 \<lceil>q\<rceil>))"

text \<open>
  \<open>factor = max(0.1, 1.0 - (t / max(1, self.trail_len)))\<close>: the quotient of the two
  integers is rounded to a double, then the difference is; \<open>0.1\<close> is the double nearest
  to one tenth.
\<close>

definition trail_factor :: "int \<Rightarrow> int \<Rightarrow> rat" where
  "trail_factor n t =
     max (py_float (1 / 10)) (py_float (1 - py_float (of_int t / of_int (max 1 n))))"

text \<open>\<open>int(r * factor)\<close>: the channel becomes a double, the product is rounded, and
  \<open>int\<close> truncates it.\<close>

definition scale_channel :: "int \<Rightarrow> rat \<Rightarrow> int" where
  "scale_channel c factor = py_int (py_float (py_float (of_int c) * factor))"

definition trail_level :: "rgb \<Rightarrow> rat \<Rightarrow> rgb" where
  "trail_level c factor =
     (case c of (r, g, b) \<Rightarrow>
        (scale_channel r factor, scale_channel g factor, scale_channel b factor))"

definition precompute_trail :: "pace_event \<Rightarrow> rgb list" where
  "precompute_trail ev =
     map (\<lambda>t. trail_level (color ev) (trail_factor (trail_len ev) t))
       (range_down (trail_len ev))"

text \<open>The truthiness of \<open>ev.splits_100\<close>: neither \<open>None\<close> nor the empty list.\<close>

definition has_splits :: "pace_event \<Rightarrow> bool" where
  "has_splits ev = (case splits_100 ev of None \<Rightarrow> False | Some xs \<Rightarrow> xs \<noteq> [])"

text \<open>\<open>ev.splits_100 or []\<close>.\<close>

definition splits_of :: "pace_event \<Rightarrow> rat list" where
  "splits_of evt = (case splits_100 evt of None \<Rightarrow> [] | Some xs \<Rightarrow> xs)"

subsection \<open>The pixel sink and the runner's flags\<close>

text \<open>
  The strip is its buffer of packed colours; \<open>numPixels\<close> is the buffer's length.
  \<open>frames\<close> records every buffer that \<open>show()\<close> flushed, oldest first, \<open>running\<close> is
  \<open>running_event\<close>, and \<open>warnings\<close> counts the \<open>[WARN] show() throttled\<close> lines printed.
  What the hardware does is an input of the model: a \<open>sink_fault\<close> says which call of
  the strip raises during one push.
\<close>

record world =
  pixels :: "int list"
  frames :: "int list list"
  running :: bool
  warnings :: nat

datatype sink_fault = NoFault | SetPixelFault nat | ShowFault

definition numPixels :: "world \<Rightarrow> int" where
  "numPixels w = int (length (pixels w))"

definition setPixelColor :: "nat \<Rightarrow> int \<Rightarrow> world \<Rightarrow> world" where
  "setPixelColor i c w = w\<lparr>pixels := (pixels w)[i := c]\<rparr>"

definition strip_show :: "sink_fault \<Rightarrow> world \<Rightarrow> (py_error \<times> world) + world" where
  "strip_show f w =
     (if f = ShowFault then Inl (SinkError, w)
      else Inr (w\<lparr>frames := frames w @ [pixels w]\<rparr>))"

text \<open>\<open>for i, (r, g, b) in enumerate(fb): strip.setPixelColor(i, pack_color(r, g, b))\<close>\<close>

fun push_pixels :: "sink_fault \<Rightarrow> (nat \<times> rgb) list \<Rightarrow> world \<Rightarrow> (py_error \<times> world) + world" where
  "push_pixels f [] w = Inr w"
| "push_pixels f ((i, (r, g, b)) # rest) w =
     (if f = SetPixelFault i then Inl (SinkError, w)
      else push_pixels f rest (setPixelColor i (pack_color r g b COLOR_ORDER) w))"

definition push_frame :: "sink_fault \<Rightarrow> rgb list \<Rightarrow> world \<Rightarrow> (py_error \<times> world) + world" where
  "push_frame f fb w =
     (case push_pixels f (enumerate 0 fb) w of
        Inl x \<Rightarrow> Inl x
      | Inr w1 \<Rightarrow> strip_show f w1)"

text \<open>\<open>try: self._push_frame(fb) except Exception: pass\<close>\<close>

definition try_push_frame :: "sink_fault \<Rightarrow> rgb list \<Rightarrow> world \<Rightarrow> world" where
  "try_push_frame f fb w = (case push_frame f fb w of Inl (e, w1) \<Rightarrow> w1 | Inr w1 \<Rightarrow> w1)"

text \<open>The push inside the loops: only \<open>show()\<close> stands under \<open>try\<close>, and its failure
  prints a warning.\<close>

definition push_and_show :: "sink_fault \<Rightarrow> rgb list \<Rightarrow> world \<Rightarrow> (py_error \<times> world) + world" where
  "push_and_show f fb w =
     (case push_pixels f (enumerate 0 fb) w of
        Inl x \<Rightarrow> Inl x
      | Inr w1 \<Rightarrow>
          (case strip_show f w1 of
             Inl (e, w2) \<Rightarrow> Inr (w2\<lparr>warnings := warnings w2 + 1\<rparr>)
           | Inr w2 \<Rightarrow> Inr w2))"

text \<open>\<open>BaseStrip.clear\<close>: every pixel to 0, then \<open>show()\<close>.\<close>

fun clear_pixels :: "sink_fault \<Rightarrow> nat list \<Rightarrow> world \<Rightarrow> (py_error \<times> world) + world" where
  "clear_pixels f [] w = Inr w"
| "clear_pixels f (i # rest) w =
     (if f = SetPixelFault i then Inl (SinkError, w)
      else clear_pixels f rest (setPixelColor i 0 w))"

definition strip_clear :: "sink_fault \<Rightarrow> world \<Rightarrow> (py_error \<times> world) + world" where
  "strip_clear f w =
     (case clear_pixels f [0..<length (pixels w)] w of
        Inl x \<Rightarrow> Inl x
      | Inr w1 \<Rightarrow> strip_show f w1)"

text \<open>The end of every run: \<open>try: strip.clear() except: pass\<close>, then
  \<open>running_event.clear()\<close>.\<close>

definition finish :: "sink_fault \<Rightarrow> world \<Rightarrow> world" where
  "finish f w =
     (case strip_clear f w of Inl (e, w1) \<Rightarrow> w1 | Inr w1 \<Rightarrow> w1)\<lparr>running := False\<rparr>"

subsection \<open>Position trackers\<close>

record tracker =
  pos_f :: rat
  meters_done :: rat

text \<open>The dictionary \<open>st\<close> of the parallel runner; \<open>done_flag\<close> is its key \<open>"done"\<close>.\<close>

record run_state = tracker +
  ev :: pace_event
  leds_per_sec :: rat
  traversals_needed :: int
  traversals_done :: int
  use_splits :: bool
  done_flag :: bool
  trail_levels :: "rgb list"

definition start_position :: "pace_event \<Rightarrow> int \<Rightarrow> int" where
  "start_position evt n =
     (case start_led evt of
        Some s \<Rightarrow> if n > 0 then s mod n else 0
      | None \<Rightarrow> 0)"

text \<open>\<open>splits[0] if splits and splits[0] > 0 else 1e-9\<close>\<close>

definition first_split :: "rat list \<Rightarrow> rat" where
  "first_split splits =
     (case splits of [] \<Rightarrow> 1 / 1000000000 | s # rest \<Rightarrow> if s > 0 then s else 1 / 1000000000)"

text \<open>\<open>pos_f += v * startup_delay; meters_done += (v / lpm) * startup_delay\<close>\<close>

definition pre_advance ::
  "rat \<Rightarrow> rat \<Rightarrow> rat \<Rightarrow> 'a tracker_scheme \<Rightarrow> py_error + 'a tracker_scheme" where
  "pre_advance v lpm startup_delay st =
     (case py_div v lpm of
        Inl e \<Rightarrow> Inl e
      | Inr mps \<Rightarrow>
          Inr (st\<lparr>pos_f := pos_f st + v * startup_delay,
                  meters_done := meters_done st + mps * startup_delay\<rparr>))"

text \<open>The velocity of the current 100 m block:
  \<open>seg_idx = int(min(len(splits) - 1, meters_done // 100))\<close>,
  \<open>mps = 100.0 / splits[seg_idx]\<close>, \<open>v = mps * lpm\<close>.\<close>

definition split_velocity :: "rat list \<Rightarrow> rat \<Rightarrow> rat \<Rightarrow> py_error + rat" where
  "split_velocity splits lpm md =
     (let seg_idx = min (int (length splits) - 1) \<lfloor>md / 100\<rfloor>
      in case py_index splits seg_idx of
           Inl e \<Rightarrow> Inl e
         | Inr s \<Rightarrow>
             (case py_div 100 s of
                Inl e \<Rightarrow> Inl e
              | Inr mps \<Rightarrow> Inr (mps * lpm)))"

subsection \<open>The trail\<close>

text \<open>
  \<open>for t, col in enumerate(levels): idx = head_idx - (trail_len - t); if idx < 0:
  continue; fb[idx] = ...\<close>.  The single-event loops store \<open>col\<close>, the parallel loop
  stores \<open>blend_additive(fb[idx], col)\<close>; \<open>wr\<close> is that choice.  An index at or past the
  end of the framebuffer raises.
\<close>

fun draw_trail ::
  "(rgb \<Rightarrow> rgb \<Rightarrow> rgb) \<Rightarrow> int \<Rightarrow> int \<Rightarrow> (nat \<times> rgb) list \<Rightarrow> rgb list \<Rightarrow> py_error + rgb list" where
  "draw_trail wr head_idx tlen [] fb = Inr fb"
| "draw_trail wr head_idx tlen ((t, col) # rest) fb =
     (let idx = head_idx - (tlen - int t)
      in if idx < 0 then draw_trail wr head_idx tlen rest fb
         else if nat idx < length fb
           then draw_trail wr head_idx tlen rest (fb[nat idx := wr (fb ! nat idx) col])
           else Inl IndexError)"

definition store_col :: "rgb \<Rightarrow> rgb \<Rightarrow> rgb" where
  "store_col old col = col"

definition blank_frame :: "int \<Rightarrow> rgb list" where
  "blank_frame n = replicate (nat n) (0, 0, 0)"

subsection \<open>The frame loop\<close>

text \<open>
  One iteration of \<open>while not self.stop_event.is_set()\<close> is one \<open>loop_event\<close>:
  the stop signal is set (\<open>Stop\<close>), the next frame is not due yet and the loop sleeps
  (\<open>Sleep\<close>), or a frame is due (\<open>Tick\<close>, with what the strip does during it).  The list
  of events is what the clock and the caller do during the run; a loop still running
  at its end is \<open>Unfinished\<close>.
\<close>

datatype loop_event = Stop | Sleep | Tick sink_fault

datatype 'st tick_out = Continue 'st world | Break 'st world | Raise py_error world | Hang

datatype 'st loop_out =
  Completed 'st world | Cancelled 'st world | Fault py_error world | Hung | Unfinished 'st world

fun run_loop ::
  "(sink_fault \<Rightarrow> 'st \<Rightarrow> world \<Rightarrow> 'st tick_out) \<Rightarrow> loop_event list \<Rightarrow> 'st \<Rightarrow> world \<Rightarrow> 'st loop_out" where
  "run_loop body [] st w = Unfinished st w"
| "run_loop body (Stop # es) st w = Cancelled st w"
| "run_loop body (Sleep # es) st w = run_loop body es st w"
| "run_loop body (Tick f # es) st w =
     (case body f st w of
        Continue st1 w1 \<Rightarrow> run_loop body es st1 w1
      | Break st1 w1 \<Rightarrow> Completed st1 w1
      | Raise e w1 \<Rightarrow> Fault e w1
      | Hang \<Rightarrow> Hung)"

datatype outcome = Returned world | Raised py_error world | Hangs | Pending world

definition conclude :: "sink_fault \<Rightarrow> 'st loop_out \<Rightarrow> outcome" where
  "conclude cleanup r =
     (case r of
        Completed st w \<Rightarrow> Returned (finish cleanup w)
      | Cancelled st w \<Rightarrow> Returned (finish cleanup w)
      | Fault e w \<Rightarrow> Raised e w
      | Hung \<Rightarrow> Hangs
      | Unfinished st w \<Rightarrow> Pending w)"

subsection \<open>\<open>Runner.run_event\<close>: the constant-pace loop\<close>

text \<open>\<open>while pos_f >= rail_leds: pos_f -= rail_leds\<close>; not returning is \<open>None\<close>.\<close>

partial_function (option) wrap_pos :: "int \<Rightarrow> rat \<Rightarrow> rat option" where
  "wrap_pos n p = (if p \<ge> of_int n then wrap_pos n (p - of_int n) else Some p)"

declare wrap_pos.simps [code]

definition tick_const ::
  "pace_event \<Rightarrow> int \<Rightarrow> rat \<Rightarrow> rat \<Rightarrow> rgb list \<Rightarrow> sink_fault \<Rightarrow> tracker \<Rightarrow> world \<Rightarrow> tracker tick_out" where
  "tick_const evt n lps lpm levels f st w =
     (let dt = frame_dt_target; v = lps
      in case py_div v lpm of
           Inl e \<Rightarrow> Raise e w
         | Inr mps \<Rightarrow>
             (case wrap_pos n (pos_f st + v * dt) of
                None \<Rightarrow> Hang
              | Some p \<Rightarrow>
                  (let st1 = st\<lparr>pos_f := p, meters_done := meters_done st + mps * dt\<rparr>
                   in if meters_done st1 \<ge> of_int (distance_m evt) then Break st1 w
                      else
                        (case draw_trail store_col (py_int p) (trail_len evt)
                                (enumerate 0 levels) (blank_frame n) of
                           Inl e \<Rightarrow> Raise e w
                         | Inr fb \<Rightarrow>
                             (case push_and_show f fb w of
                                Inl (e, w1) \<Rightarrow> Raise e w1
                              | Inr w1 \<Rightarrow> Continue st1 w1)))))"

text \<open>Lines 270 to 328: the arguments after the event are what the strip does during
  the start-up push, the time that push took, the loop's events, and what the strip
  does during the final clear.\<close>

definition run_event_const ::
  "pace_event \<Rightarrow> sink_fault \<Rightarrow> rat \<Rightarrow> loop_event list \<Rightarrow> sink_fault \<Rightarrow> world \<Rightarrow> outcome" where
  "run_event_const evt startup elapsed trace cleanup w =
     (case leds_per_meter evt of
        Inl e \<Rightarrow> Raised e w
      | Inr lpm \<Rightarrow>
          (let n = numPixels w; lps = pace_mps evt * lpm
           in if lps \<le> 0 \<or> n \<le> 0 then Returned w
              else
                (let w1 = w\<lparr>running := True\<rparr>;
                     st0 = \<lparr>pos_f = of_int (start_position evt n), meters_done = 0\<rparr>;
                     levels = precompute_trail evt;
                     w2 = try_push_frame startup (blank_frame n) w1;
                     startup_delay = max 0 elapsed
                 in case pre_advance lps lpm startup_delay st0 of
                      Inl e \<Rightarrow> Raised e w2
                    | Inr st1 \<Rightarrow>
                        conclude cleanup
                          (run_loop (tick_const evt n lps lpm levels) trace st1 w2))))"

subsection \<open>\<open>Runner.run_event_with_splits\<close>: the split-pace loop\<close>

definition tick_splits ::
  "pace_event \<Rightarrow> int \<Rightarrow> rat list \<Rightarrow> rat \<Rightarrow> rgb list \<Rightarrow> sink_fault \<Rightarrow> tracker \<Rightarrow> world \<Rightarrow> tracker tick_out" where
  "tick_splits evt n splits lpm levels f st w =
     (let dt = frame_dt_target
      in case split_velocity splits lpm (meters_done st) of
           Inl e \<Rightarrow> Raise e w
         | Inr v \<Rightarrow>
             (case py_div v lpm of
                Inl e \<Rightarrow> Raise e w
              | Inr mps \<Rightarrow>
                  (let st1 = st\<lparr>pos_f := pos_f st + v * dt,
                                  meters_done := meters_done st + mps * dt\<rparr>
                   in case py_fmod (pos_f st1) n of
                        Inl e \<Rightarrow> Raise e w
                      | Inr m \<Rightarrow>
                          (case draw_trail store_col (py_int m) (trail_len evt)
                                  (enumerate 0 levels) (blank_frame n) of
                             Inl e \<Rightarrow> Raise e w
                           | Inr fb \<Rightarrow>
                               (case push_and_show f fb w of
                                  Inl (e, w1) \<Rightarrow> Raise e w1
                                | Inr w1 \<Rightarrow>
                                    if meters_done st1 \<ge> of_int (distance_m evt)
                                    then Break st1 w1 else Continue st1 w1)))))"

text \<open>Lines 203 to 264, entered with a non-empty list of splits.\<close>

definition run_splits_body ::
  "pace_event \<Rightarrow> sink_fault \<Rightarrow> rat \<Rightarrow> loop_event list \<Rightarrow> sink_fault \<Rightarrow> world \<Rightarrow> outcome" where
  "run_splits_body evt startup elapsed trace cleanup w =
     (let splits = splits_of evt
      in case leds_per_meter evt of
           Inl e \<Rightarrow> Raised e w
         | Inr lpm \<Rightarrow>
             (let n = numPixels w;
                  w1 = w\<lparr>running := True\<rparr>;
                  st0 = \<lparr>pos_f = of_int (start_position evt n), meters_done = 0\<rparr>;
                  levels = precompute_trail evt;
                  w2 = try_push_frame startup (blank_frame n) w1;
                  startup_delay = max 0 elapsed;
                  first_seg_mps = 100 / first_split splits;
                  first_v = first_seg_mps * lpm
              in case pre_advance first_v lpm startup_delay st0 of
                   Inl e \<Rightarrow> Raised e w2
                 | Inr st1 \<Rightarrow>
                     conclude cleanup
                       (run_loop (tick_splits evt n splits lpm levels) trace st1 w2)))"

text \<open>
  The two entry points call each other in the source: \<open>run_event\<close> hands an event with
  splits to \<open>run_event_with_splits\<close>, which hands an event without splits back.  The
  event without splits then takes the constant-pace lines, so that call is written as
  \<open>run_event_const\<close> here.
\<close>

definition run_event_with_splits ::
  "pace_event \<Rightarrow> sink_fault \<Rightarrow> rat \<Rightarrow> loop_event list \<Rightarrow> sink_fault \<Rightarrow> world \<Rightarrow> outcome" where
  "run_event_with_splits evt startup elapsed trace cleanup w =
     (if splits_of evt = [] then run_event_const evt startup elapsed trace cleanup w
      else run_splits_body evt startup elapsed trace cleanup w)"

definition run_event ::
  "pace_event \<Rightarrow> sink_fault \<Rightarrow> rat \<Rightarrow> loop_event list \<Rightarrow> sink_fault \<Rightarrow> world \<Rightarrow> outcome" where
  "run_event evt startup elapsed trace cleanup w =
     (if has_splits evt then run_event_with_splits evt startup elapsed trace cleanup w
      else run_event_const evt startup elapsed trace cleanup w)"

subsection \<open>\<open>Runner.run_events_parallel\<close>: the compositor\<close>

fun validate :: "int \<Rightarrow> int \<Rightarrow> pace_event list \<Rightarrow> py_error option" where
  "validate n laps0 [] = None"
| "validate n laps0 (evt # evs) =
     (if rail_leds evt \<noteq> n
        then Some (ValueError ''All events must use the same Rail LEDs to run in parallel.'')
      else if laps_m evt \<noteq> laps0
        then Some (ValueError ''All events must use the same lap length to run in parallel.'')
      else validate n laps0 evs)"

fun init_states :: "int \<Rightarrow> pace_event list \<Rightarrow> py_error + run_state list" where
  "init_states n [] = Inr []"
| "init_states n (evt # evs) =
     (case leds_per_meter evt of
        Inl e \<Rightarrow> Inl e
      | Inr lpm \<Rightarrow>
          (let lps = pace_mps evt * lpm
           in if lps \<le> 0 then init_states n evs
              else
                (case total_led_traversals evt of
                   Inl e \<Rightarrow> Inl e
                 | Inr needed \<Rightarrow>
                     (case init_states n evs of
                        Inl e \<Rightarrow> Inl e
                      | Inr sts \<Rightarrow>
                          Inr (\<lparr>pos_f = of_int (start_position evt n), meters_done = 0,
                                ev = evt, leds_per_sec = lps, traversals_needed = needed,
                                traversals_done = 0, use_splits = has_splits evt,
                                done_flag = False, trail_levels = precompute_trail evt\<rparr>
                               # sts)))))"

text \<open>The start-up compensation of one state (lines 384 to 386).\<close>

definition pre_advance_state :: "rat \<Rightarrow> run_state \<Rightarrow> py_error + run_state" where
  "pre_advance_state startup_delay st =
     (case leds_per_meter (ev st) of
        Inl e \<Rightarrow> Inl e
      | Inr lpm \<Rightarrow>
          (let v0 = (if \<not> use_splits st then leds_per_sec st
                     else (100 / first_split (splits_of (ev st))) * lpm)
           in pre_advance v0 lpm startup_delay st))"

fun pre_advance_all :: "rat \<Rightarrow> run_state list \<Rightarrow> py_error + run_state list" where
  "pre_advance_all startup_delay [] = Inr []"
| "pre_advance_all startup_delay (st # sts) =
     (case pre_advance_state startup_delay st of
        Inl e \<Rightarrow> Inl e
      | Inr st1 \<Rightarrow>
          (case pre_advance_all startup_delay sts of
             Inl e \<Rightarrow> Inl e
           | Inr sts1 \<Rightarrow> Inr (st1 # sts1)))"

text \<open>The wrap loop of the compositor (lines 424 to 430): each subtraction of a
  constant-pace state counts one traversal, and the loop is left as soon as the
  count reaches \<open>traversals_needed\<close>.\<close>

partial_function (option) wrap_state :: "int \<Rightarrow> run_state \<Rightarrow> run_state option" where
  "wrap_state n st =
     (if pos_f st \<ge> of_int n then
        (if use_splits st then wrap_state n (st\<lparr>pos_f := pos_f st - of_int n\<rparr>)
         else if traversals_done st + 1 \<ge> traversals_needed st
           then Some (st\<lparr>pos_f := pos_f st - of_int n,
                          traversals_done := traversals_done st + 1,
                          done_flag := True\<rparr>)
           else wrap_state n (st\<lparr>pos_f := pos_f st - of_int n,
                                   traversals_done := traversals_done st + 1\<rparr>))
      else Some st)"

declare wrap_state.simps [code]

text \<open>The velocity a state takes for this tick (lines 411 to 419).\<close>

definition pick_velocity :: "run_state \<Rightarrow> py_error + rat" where
  "pick_velocity st =
     (if use_splits st then
        (case leds_per_meter (ev st) of
           Inl e \<Rightarrow> Inl e
         | Inr lpm \<Rightarrow> split_velocity (splits_of (ev st)) lpm (meters_done st))
      else Inr (leds_per_sec st))"

text \<open>The body of \<open>for st in state\<close> for a state that is not done (lines 409 to 447);
  \<open>None\<close> when the wrap loop does not return.\<close>

definition step_state ::
  "int \<Rightarrow> run_state \<Rightarrow> rgb list \<Rightarrow> (py_error + run_state \<times> rgb list) option" where
  "step_state n st fb =
     (let dt = frame_dt_target
      in case pick_velocity st of
           Inl e \<Rightarrow> Some (Inl e)
         | Inr v \<Rightarrow>
             (case leds_per_meter (ev st) of
                Inl e \<Rightarrow> Some (Inl e)
              | Inr lpm \<Rightarrow>
                  (case py_div v lpm of
                     Inl e \<Rightarrow> Some (Inl e)
                   | Inr mps \<Rightarrow>
                       (case wrap_state n (st\<lparr>pos_f := pos_f st + v * dt,
                                                meters_done := meters_done st + mps * dt\<rparr>) of
                          None \<Rightarrow> None
                        | Some st1 \<Rightarrow>
                            (if use_splits st1 \<and> meters_done st1 \<ge> of_int (distance_m (ev st1))
                               then Some (Inr (st1\<lparr>done_flag := True\<rparr>, fb))
                             else if \<not> use_splits st1 \<and> done_flag st1
                               then Some (Inr (st1, fb))
                             else
                               (case draw_trail blend_additive (py_int (pos_f st1))
                                       (trail_len (ev st1)) (enumerate 0 (trail_levels st1)) fb of
                                  Inl e \<Rightarrow> Some (Inl e)
                                | Inr fb1 \<Rightarrow> Some (Inr (st1, fb1))))))))"

text \<open>\<open>for st in state\<close>, with the \<open>all_done\<close> flag of the tick.\<close>

fun step_states ::
  "int \<Rightarrow> run_state list \<Rightarrow> rgb list \<Rightarrow> bool \<Rightarrow> (py_error + run_state list \<times> rgb list \<times> bool) option" where
  "step_states n [] fb all_done = Some (Inr ([], fb, all_done))"
| "step_states n (st # sts) fb all_done =
     (if done_flag st then
        (case step_states n sts fb all_done of
           None \<Rightarrow> None
         | Some (Inl e) \<Rightarrow> Some (Inl e)
         | Some (Inr (sts1, fb1, d)) \<Rightarrow> Some (Inr (st # sts1, fb1, d)))
      else
        (case step_state n st fb of
           None \<Rightarrow> None
         | Some (Inl e) \<Rightarrow> Some (Inl e)
         | Some (Inr (st1, fb1)) \<Rightarrow>
             (case step_states n sts fb1 False of
                None \<Rightarrow> None
              | Some (Inl e) \<Rightarrow> Some (Inl e)
              | Some (Inr (sts1, fb2, d)) \<Rightarrow> Some (Inr (st1 # sts1, fb2, d)))))"

definition tick_parallel ::
  "int \<Rightarrow> sink_fault \<Rightarrow> run_state list \<Rightarrow> world \<Rightarrow> run_state list tick_out" where
  "tick_parallel n f state w =
     (case step_states n state (blank_frame n) True of
        None \<Rightarrow> Hang
      | Some (Inl e) \<Rightarrow> Raise e w
      | Some (Inr (state1, fb, all_done)) \<Rightarrow>
          (case push_and_show f fb w of
             Inl (e, w1) \<Rightarrow> Raise e w1
           | Inr w1 \<Rightarrow> if all_done then Break state1 w1 else Continue state1 w1))"

definition run_events_parallel ::
  "pace_event list \<Rightarrow> sink_fault \<Rightarrow> rat \<Rightarrow> loop_event list \<Rightarrow> sink_fault \<Rightarrow> world \<Rightarrow> outcome" where
  "run_events_parallel events0 startup elapsed trace cleanup w =
     (if events0 = [] then Returned w
      else
        (let events = (if length events0 > 2 then take 2 events0 else events0);
             n = numPixels w
         in case validate n (laps_m (hd events)) events of
              Some e \<Rightarrow> Raised e w
            | None \<Rightarrow>
                (case init_states n events of
                   Inl e \<Rightarrow> Raised e w
                 | Inr state \<Rightarrow>
                     if state = [] then Returned w
                     else
                       (let w1 = try_push_frame startup (blank_frame n) w;
                            startup_delay = max 0 elapsed
                        in case (if startup_delay > 0 then pre_advance_all startup_delay state
                                 else Inr state) of
                             Inl e \<Rightarrow> Raised e w1
                           | Inr state1 \<Rightarrow>
                               conclude cleanup
                                 (run_loop (tick_parallel n) trace state1
                                    (w1\<lparr>running := True\<rparr>))))))"

subsection \<open>Notions used in the statements\<close>

text \<open>The value of \<open>leds_per_meter\<close> when it returns, and the constant-pace velocity
  \<open>pace_mps * leds_per_meter\<close> of an event whose lap length is not 0 (the value of
  \<open>leds_per_sec\<close> in the runners).\<close>

definition led_ratio :: "pace_event \<Rightarrow> rat" where
  "led_ratio evt = of_int (rail_leds evt) / of_int (laps_m evt)"

definition constant_velocity :: "pace_event \<Rightarrow> rat" where
  "constant_velocity evt = pace_mps evt * (of_int (rail_leds evt) / of_int (laps_m evt))"

text \<open>The velocity in metres per second of an event's first segment: the first split of
  a split-pace event, the constant pace otherwise.\<close>

definition first_mps :: "pace_event \<Rightarrow> rat" where
  "first_mps evt = (if has_splits evt then 100 / hd (splits_of evt) else pace_mps evt)"

text \<open>The spec's wording of the brightness ramp, for comparison with \<open>trail_factor\<close>:
  a factor that rises linearly from 0.1 at level 0 to 1.0 at level \<open>n\<close>.\<close>

definition spec_linear_factor :: "int \<Rightarrow> int \<Rightarrow> rat" where
  "spec_linear_factor n k = 1 / 10 + (9 / 10) * (of_int k / of_int n)"

text \<open>The spec's wording of a level: each channel is the floor of channel times factor.\<close>

definition spec_trail_level :: "rgb \<Rightarrow> rat \<Rightarrow> rgb" where
  "spec_trail_level c factor =
     (case c of (r, g, b) \<Rightarrow>
        (\<lfloor>of_int r * factor\<rfloor>, \<lfloor>of_int g * factor\<rfloor>, \<lfloor>of_int b * factor\<rfloor>))"

text \<open>The tracker state a loop stopped with.\<close>

definition loop_state :: "'st loop_out \<Rightarrow> 'st option" where
  "loop_state r =
     (case r of Completed st w \<Rightarrow> Some st | Cancelled st w \<Rightarrow> Some st
      | Unfinished st w \<Rightarrow> Some st | Fault e w \<Rightarrow> None | Hung \<Rightarrow> None)"

text \<open>A state after \<open>j\<close> passes of the compositor's wrap loop, and the condition that
  says \<open>j\<close> is the number of passes the loop makes from \<open>st\<close> on a rail of \<open>n\<close>: it stops
  below \<open>n\<close> or, for a constant-pace state, at the first pass that reaches
  \<open>traversals_needed\<close>.\<close>

definition wrapped :: "int \<Rightarrow> run_state \<Rightarrow> int \<Rightarrow> run_state" where
  "wrapped n st j =
     st\<lparr>pos_f := pos_f st - of_int n * of_int j,
        traversals_done := traversals_done st + (if use_splits st then 0 else j),
        done_flag := done_flag st
           \<or> (\<not> use_splits st \<and> 1 \<le> j \<and> traversals_needed st \<le> traversals_done st + j)\<rparr>"

definition wrap_count :: "int \<Rightarrow> run_state \<Rightarrow> int \<Rightarrow> bool" where
  "wrap_count n st j =
     (0 \<le> j \<and> (j = 0 \<longleftrightarrow> pos_f st < of_int n)
      \<and> (1 \<le> j \<longrightarrow> 0 \<le> pos_f st - of_int n * of_int j)
      \<and> (pos_f st - of_int n * of_int j < of_int n
           \<or> (\<not> use_splits st \<and> 1 \<le> j \<and> traversals_needed st \<le> traversals_done st + j))
      \<and> (\<not> use_splits st \<and> 2 \<le> j \<longrightarrow> traversals_done st + (j - 1) < traversals_needed st))"

text \<open>A state after the advance of one tick at velocity \<open>v\<close> (LEDs per second) and
  \<open>mps\<close> (metres per second).\<close>

definition advanced :: "run_state \<Rightarrow> rat \<Rightarrow> rat \<Rightarrow> run_state" where
  "advanced st v mps =
     st\<lparr>pos_f := pos_f st + v * frame_dt_target,
        meters_done := meters_done st + mps * frame_dt_target\<rparr>"

text \<open>A state as \<open>run_events_parallel\<close> builds it for its event on a rail of \<open>n\<close>, and
  a state after the start-up compensation for a delay \<open>d\<close>.\<close>

definition fresh_state :: "int \<Rightarrow> run_state \<Rightarrow> bool" where
  "fresh_state n st \<longleftrightarrow>
     laps_m (ev st) \<noteq> 0
     \<and> pos_f st = of_int (start_position (ev st) n) \<and> meters_done st = 0
     \<and> leds_per_sec st = constant_velocity (ev st) \<and> 0 < leds_per_sec st
     \<and> use_splits st = has_splits (ev st)"

definition compensated :: "rat \<Rightarrow> run_state \<Rightarrow> run_state" where
  "compensated d st =
     st\<lparr>pos_f := pos_f st + first_mps (ev st) * led_ratio (ev st) * d,
        meters_done := meters_done st + first_mps (ev st) * d\<rparr>"

text \<open>The world after a tick whose \<open>show()\<close> failed, given the world \<open>w\<close> before the
  tick and the world \<open>w2\<close> the tick would have left: no new frame, one more warning.\<close>

definition show_missed :: "world \<Rightarrow> world \<Rightarrow> world" where
  "show_missed w w2 = w2\<lparr>frames := frames w, warnings := Suc (warnings w)\<rparr>"


subsection \<open>Inputs used to run the model\<close>

text \<open>The event of the spec's end-to-end example, with a trail of four, on its rail of
  200 pixels, and the same event with no usable target time but with splits.\<close>

definition ex_event :: pace_event where
  "ex_event =
     \<lparr>name = ''Race'', distance_m = 400, rail_leds = 200, target_time_s = 60,
      laps_m = 400, color = (0, 200, 0), trail_len = 4, splits_100 = None,
      start_led = None\<rparr>"

text \<open>The event with the colour and the trail length that \<open>PaceEvent\<close> has by default.\<close>

definition ex_default :: pace_event where
  "ex_default = ex_event\<lparr>color := (0, 255, 0), trail_len := 5\<rparr>"

definition ex_world :: world where
  "ex_world = \<lparr>pixels = replicate 200 0, frames = [], running = False, warnings = 0\<rparr>"

definition ex_unpaced :: pace_event where
  "ex_unpaced = ex_event\<lparr>target_time_s := 0, splits_100 := Some [14, 14, 15, 15]\<rparr>"

text \<open>A rail of eight pixels; on it a split-pace event that starts at LED 7, a
  constant-pace lap, the lap in red, and the lap with splits and a start LED.\<close>

definition ex_rail8 :: world where
  "ex_rail8 = \<lparr>pixels = replicate 8 0, frames = [], running = False, warnings = 0\<rparr>"

definition ex_sprint :: pace_event where
  "ex_sprint =
     \<lparr>name = ''Sprint'', distance_m = 600, rail_leds = 8, target_time_s = 42,
      laps_m = 8, color = (0, 200, 0), trail_len = 2,
      splits_100 = Some [7, 7, 7, 7, 7, 7], start_led = Some 7\<rparr>"

definition ex_lap8 :: pace_event where
  "ex_lap8 =
     \<lparr>name = ''Lap'', distance_m = 400, rail_leds = 8, target_time_s = 60,
      laps_m = 400, color = (0, 200, 0), trail_len = 2, splits_100 = None,
      start_led = None\<rparr>"


definition ex_lap8_splits :: pace_event where
  "ex_lap8_splits = ex_lap8\<lparr>splits_100 := Some [15, 15, 15, 15], start_led := Some 10\<rparr>"

text \<open>A constant-pace state of the compositor just before the end of the rail, a
  split-pace state just before its distance, and the two states one tick later.\<close>

definition ex_const_state :: run_state where
  "ex_const_state =
     \<lparr>pos_f = 7999 / 1000, meters_done = 399, ev = ex_lap8, leds_per_sec = 2 / 15,
      traversals_needed = 1, traversals_done = 0, use_splits = False, done_flag = False,
      trail_levels = [(0, 20, 0), (0, 100, 0), (0, 200, 0)]\<rparr>"

definition ex_split_state :: run_state where
  "ex_split_state =
     \<lparr>pos_f = 3, meters_done = 5999 / 10, ev = ex_sprint, leds_per_sec = 100 / 7,
      traversals_needed = 75, traversals_done = 0, use_splits = True, done_flag = False,
      trail_levels = [(0, 20, 0), (0, 100, 0), (0, 200, 0)]\<rparr>"

definition ex_const_done :: run_state where
  "ex_const_done =
     ex_const_state\<lparr>pos_f := 1 / 9000, meters_done := 7183 / 18, traversals_done := 1,
                    done_flag := True\<rparr>"

definition ex_split_done :: run_state where
  "ex_split_done = ex_split_state\<lparr>pos_f := 131 / 42, meters_done := 63002 / 105, done_flag := True\<rparr>"

text \<open>The states \<open>run_events_parallel\<close> builds for the lap and the lap with splits.\<close>

definition ex_pair_states :: "run_state list" where
  "ex_pair_states =
     [ex_const_state\<lparr>pos_f := 0, meters_done := 0\<rparr>,
      ex_const_state\<lparr>pos_f := 2, meters_done := 0, ev := ex_lap8_splits, use_splits := True\<rparr>]"

text \<open>The rail after a frame whose only lit pixel is the head at LED 0.\<close>

definition ex_head0 :: world where
  "ex_head0 =
     ex_rail8\<lparr>pixels := 13107200 # replicate 7 0, frames := [13107200 # replicate 7 0]\<rparr>"

text \<open>A one-metre event, with a split and at the same constant pace, the frame with
  the head at LED 1, the tracker after eight and nine ticks, and the rail after them.\<close>

definition ex_short_split :: pace_event where
  "ex_short_split =
     \<lparr>name = ''Short'', distance_m = 1, rail_leds = 8, target_time_s = 7,
      laps_m = 8, color = (0, 200, 0), trail_len = 2, splits_100 = Some [7],
      start_led = None\<rparr>"

definition ex_short_const :: pace_event where
  "ex_short_const = ex_short_split\<lparr>target_time_s := 7 / 100, splits_100 := None\<rparr>"






section \<open>The event model\<close>

subsection \<open>Derived quantities\<close>

lemma pace_mps_guarded: "target_time_s evt \<le> 0 \<Longrightarrow> pace_mps evt = 0"
  by (simp add: pace_mps_def)

lemma leds_per_meter_value:
  "laps_m evt \<noteq> 0 \<Longrightarrow>
     leds_per_meter evt = Inr (of_int (rail_leds evt) / of_int (laps_m evt))"
  by (simp add: leds_per_meter_def py_div_def)


text \<open>
  C5.  \<open>pace_mps\<close> guards its denominator, \<open>leds_per_meter\<close> does not: with a lap length
  of 0 it raises \<open>ZeroDivisionError\<close>, and so does the run that calls it; with a negative
  lap length it returns a negative number, not 0.0.
\<close>

theorem leds_per_meter_unguarded:
  "leds_per_meter (ex_event\<lparr>laps_m := 0\<rparr>) = Inl ZeroDivisionError
   \<and> run_event (ex_event\<lparr>laps_m := 0\<rparr>) startup elapsed trace cleanup w
       = Raised ZeroDivisionError w
   \<and> leds_per_meter (ex_event\<lparr>laps_m := - 400\<rparr>) = Inr (- 1 / 2)
   \<and> pace_mps (ex_event\<lparr>target_time_s := 0\<rparr>) = 0"
  by (simp add: run_event_def run_event_const_def has_splits_def leds_per_meter_def
      py_div_def pace_mps_def ex_event_def)

subsection \<open>Rounding to a double\<close>

lemma round_half_even_bounds:
  "\<lfloor>x\<rfloor> \<le> round_half_even x" "round_half_even x \<le> \<lfloor>x\<rfloor> + 1"
  by (simp_all add: round_half_even_def Let_def)

lemma round_half_even_of_int [simp]: "round_half_even (of_int k) = k"
  by (simp add: round_half_even_def)

lemma round_half_even_mono:
  assumes "x \<le> y"
  shows "round_half_even x \<le> round_half_even y"
proof (cases "\<lfloor>x\<rfloor> = \<lfloor>y\<rfloor>")
  case True
  have "x - of_int \<lfloor>y\<rfloor> \<le> y - of_int \<lfloor>y\<rfloor>" using assms by simp
  with True show ?thesis by (auto simp: round_half_even_def Let_def)
next
  case False
  have "\<lfloor>x\<rfloor> \<le> \<lfloor>y\<rfloor>" using assms by (rule floor_mono)
  with False have "\<lfloor>x\<rfloor> + 1 \<le> \<lfloor>y\<rfloor>" by simp
  with round_half_even_bounds(2) [of x] round_half_even_bounds(1) [of y]
  show ?thesis by linarith
qed

lemma round_half_even_error: "\<bar>of_int (round_half_even x) - x\<bar> \<le> 1 / 2"
proof -
  have "of_int \<lfloor>x\<rfloor> \<le> x" "x < of_int \<lfloor>x\<rfloor> + 1"
    using floor_correct [of x] by simp_all
  then show ?thesis
    by (auto simp: round_half_even_def Let_def abs_le_iff)
qed

lemma round_half_even_le_int: "x \<le> of_int k \<Longrightarrow> round_half_even x \<le> k"
  using round_half_even_mono [of x "of_int k"] by simp

lemma round_half_even_ge_int: "of_int k \<le> x \<Longrightarrow> k \<le> round_half_even x"
  using round_half_even_mono [of "of_int k" x] by simp

lemma bitlen_power_bounds:
  assumes "0 < p"
  shows "(2::rat) powi (bitlen p - 1) \<le> of_int p" "(of_int p :: rat) < 2 powi bitlen p"
proof -
  have b: "1 \<le> bitlen p"
    using assms bitlen_eq_zero_iff [of p] bitlen_nonneg [of p] by linarith
  have "(2::int) ^ nat (bitlen p - 1) \<le> p" using bitlen_bounds [OF assms] by simp
  then have "(of_int ((2::int) ^ nat (bitlen p - 1)) :: rat) \<le> of_int p"
    by (simp only: of_int_le_iff)
  then show "(2::rat) powi (bitlen p - 1) \<le> of_int p"
    using b by (simp add: power_int_nonneg_exp)
  have "p < (2::int) ^ nat (bitlen p)" using bitlen_bounds [OF assms] by simp
  then have "(of_int p :: rat) < of_int ((2::int) ^ nat (bitlen p))"
    by (simp only: of_int_less_iff)
  then show "(of_int p :: rat) < 2 powi bitlen p"
    using b by (simp add: power_int_nonneg_exp)
qed

lemma binary_exponent_bounds:
  assumes "0 < x"
  shows "2 powi binary_exponent x \<le> x" "x < 2 powi (binary_exponent x + 1)"
proof -
  obtain p q where pq: "quotient_of x = (p, q)" by (cases "quotient_of x")
  then have q: "0 < q" by (rule quotient_of_denom_pos)
  have x: "x = of_int p / of_int q" using pq by (rule quotient_of_div)
  from assms x q have p: "0 < p" by (simp add: zero_less_divide_iff)
  let ?d = "bitlen p - bitlen q"
  note p1 = bitlen_power_bounds(1) [OF p] and p2 = bitlen_power_bounds(2) [OF p]
  note q1 = bitlen_power_bounds(1) [OF q] and q2 = bitlen_power_bounds(2) [OF q]
  have qpos: "(0::rat) < of_int q" using q by simp
  have lo: "(2::rat) powi (?d - 1) \<le> x"
  proof -
    have "(2::rat) powi (?d - 1) * of_int q \<le> 2 powi (?d - 1) * 2 powi bitlen q"
      using q2 by (intro mult_left_mono) simp_all
    also have "\<dots> = 2 powi (bitlen p - 1)"
      by (simp add: power_int_add [symmetric])
    also have "\<dots> \<le> of_int p" by (rule p1)
    finally show ?thesis using qpos by (simp add: x le_divide_eq)
  qed
  have hi: "x < 2 powi (?d + 1)"
  proof -
    have "of_int p < (2::rat) powi bitlen p" by (rule p2)
    also have "\<dots> = 2 powi (?d + 1) * 2 powi (bitlen q - 1)"
      by (simp add: power_int_add [symmetric])
    also have "\<dots> \<le> 2 powi (?d + 1) * of_int q"
      using q1 by (intro mult_left_mono) simp_all
    finally show ?thesis using qpos by (simp add: x divide_less_eq)
  qed
  have e: "binary_exponent x = (if 2 powi ?d \<le> x then ?d else ?d - 1)"
    by (simp add: binary_exponent_def pq Let_def)
  show "2 powi binary_exponent x \<le> x" using lo by (simp add: e)
  show "x < 2 powi (binary_exponent x + 1)" using hi by (auto simp: e)
qed

lemma pow2_less_exp:
  assumes "(2::rat) powi a < 2 powi b"
  shows "a < b"
proof (rule ccontr)
  assume "\<not> a < b"
  then have "b \<le> a" by simp
  then have "(2::rat) powi b \<le> 2 powi a" by (intro power_int_increasing) simp_all
  with assms show False by simp
qed

lemma pow2_int: "0 \<le> k \<Longrightarrow> (2::rat) powi k = of_int (2 ^ nat k)"
  by (simp add: power_int_nonneg_exp)

lemma binary_exponent_mono:
  assumes "0 < x" "x \<le> y"
  shows "binary_exponent x \<le> binary_exponent y"
proof -
  have y: "0 < y" using assms by simp
  have "(2::rat) powi binary_exponent x \<le> x" using assms(1) by (rule binary_exponent_bounds)
  also have "x \<le> y" by fact
  also have "y < 2 powi (binary_exponent y + 1)" using y by (rule binary_exponent_bounds)
  finally have "(2::rat) powi binary_exponent x < 2 powi (binary_exponent y + 1)" .
  then have "binary_exponent x < binary_exponent y + 1" by (rule pow2_less_exp)
  then show ?thesis by simp
qed

lemma round_half_even_quotient:
  assumes "0 < b"
  shows "round_half_even (of_int a / of_int b) = round_div a b"
proof -
  have fl: "\<lfloor>(of_int a :: rat) / of_int b\<rfloor> = a div b" by (rule floor_divide_of_int_eq)
  have bpos: "(0::rat) < of_int b" using assms by simp
  have "(of_int (a div b * b + a mod b) :: rat) = of_int a"
    by (simp only: div_mult_mod_eq)
  then have "(of_int a :: rat) = of_int (a div b) * of_int b + of_int (a mod b)"
    by (simp only: of_int_add of_int_mult)
  then have "(of_int a :: rat) / of_int b
      = (of_int (a div b) * of_int b + of_int (a mod b)) / of_int b"
    by (rule arg_cong)
  also have "\<dots> = of_int (a div b) + of_int (a mod b) / of_int b"
    using bpos by (simp add: add_divide_distrib)
  finally have "(of_int a :: rat) / of_int b = of_int (a div b) + of_int (a mod b) / of_int b" .
  then have r: "(of_int a :: rat) / of_int b - of_int (a div b) = of_int (a mod b) / of_int b"
    by simp
  have lt: "(of_int (a mod b) :: rat) / of_int b < 1 / 2 \<longleftrightarrow> 2 * (a mod b) < b"
  proof -
    have "(of_int (a mod b) :: rat) / of_int b < 1 / 2
        \<longleftrightarrow> (of_int (2 * (a mod b)) :: rat) < of_int b"
      using bpos by (simp add: field_simps)
    then show ?thesis by (simp only: of_int_less_iff)
  qed
  have gt: "1 / 2 < (of_int (a mod b) :: rat) / of_int b \<longleftrightarrow> b < 2 * (a mod b)"
  proof -
    have "1 / 2 < (of_int (a mod b) :: rat) / of_int b
        \<longleftrightarrow> (of_int b :: rat) < of_int (2 * (a mod b))"
      using bpos by (simp add: field_simps)
    then show ?thesis by (simp only: of_int_less_iff)
  qed
  show ?thesis
    unfolding round_half_even_def round_div_def Let_def fl r lt gt ..
qed

lemma binary_exponent_unique:
  assumes "2 powi e \<le> x" "x < 2 powi (e + 1)" "0 < x"
  shows "binary_exponent x = e"
proof -
  note b = binary_exponent_bounds [OF assms(3)]
  have "(2::rat) powi e < 2 powi (binary_exponent x + 1)" using assms(1) b(2) by simp
  then have 1: "e < binary_exponent x + 1" by (rule pow2_less_exp)
  have "(2::rat) powi binary_exponent x < 2 powi (e + 1)" using assms(2) b(1) by simp
  then have 2: "binary_exponent x < e + 1" by (rule pow2_less_exp)
  from 1 2 show ?thesis by simp
qed

lemma quotient_exponent:
  assumes a: "0 < a" and q: "0 < q"
  shows "binary_exponent (of_int a / of_int q)
     = (let d = bitlen a - bitlen q
        in if (if 0 \<le> d then 2 ^ nat d * q \<le> a else q \<le> 2 ^ nat (- d) * a) then d else d - 1)"
proof -
  let ?x = "(of_int a :: rat) / of_int q"
  let ?d = "bitlen a - bitlen q"
  have x: "0 < ?x" using a q by simp
  have qpos: "(0::rat) < of_int q" using q by simp
  note a1 = bitlen_power_bounds(1) [OF a] and a2 = bitlen_power_bounds(2) [OF a]
  note q1 = bitlen_power_bounds(1) [OF q] and q2 = bitlen_power_bounds(2) [OF q]
  have lo: "(2::rat) powi (?d - 1) \<le> ?x"
  proof -
    have "(2::rat) powi (?d - 1) * of_int q \<le> 2 powi (?d - 1) * 2 powi bitlen q"
      using q2 by (intro mult_left_mono) simp_all
    also have "\<dots> = 2 powi (bitlen a - 1)"
      by (simp add: power_int_add [symmetric])
    also have "\<dots> \<le> of_int a" by (rule a1)
    finally show ?thesis using qpos by (simp add: le_divide_eq)
  qed
  have hi: "?x < 2 powi (?d + 1)"
  proof -
    have "of_int a < (2::rat) powi bitlen a" by (rule a2)
    also have "\<dots> = 2 powi (?d + 1) * 2 powi (bitlen q - 1)"
      by (simp add: power_int_add [symmetric])
    also have "\<dots> \<le> 2 powi (?d + 1) * of_int q"
      using q1 by (intro mult_left_mono) simp_all
    finally show ?thesis using qpos by (simp add: divide_less_eq)
  qed
  have test: "(if 0 \<le> ?d then 2 ^ nat ?d * q \<le> a else q \<le> 2 ^ nat (- ?d) * a)
      \<longleftrightarrow> 2 powi ?d \<le> ?x"
  proof (cases "0 \<le> ?d")
    case True
    have "2 powi ?d \<le> ?x \<longleftrightarrow> (of_int (2 ^ nat ?d * q) :: rat) \<le> of_int a"
      using qpos True by (simp add: le_divide_eq power_int_nonneg_exp)
    also have "\<dots> \<longleftrightarrow> 2 ^ nat ?d * q \<le> a" by (simp only: of_int_le_iff)
    finally show ?thesis using True by simp
  next
    case False
    define k where "k = nat (- ?d)"
    have n: "?d = - int k" using False by (simp add: k_def)
    have p2: "(2::rat) powi ?d = 1 / 2 ^ k"
      by (simp only: n power_int_minus_divide power_int_of_nat)
    have kpos: "(0::rat) < 2 ^ k" by simp
    have "1 / 2 ^ k \<le> ?x \<longleftrightarrow> (of_int q :: rat) \<le> 2 ^ k * of_int a"
      using qpos kpos by (simp add: field_simps)
    also have "(2 ^ k * of_int a :: rat) = of_int (2 ^ k * a)" by simp
    also have "(of_int q :: rat) \<le> of_int (2 ^ k * a) \<longleftrightarrow> q \<le> 2 ^ k * a"
      by (simp only: of_int_le_iff)
    finally have "2 powi ?d \<le> ?x \<longleftrightarrow> q \<le> 2 ^ k * a" by (simp only: p2)
    then show ?thesis using False by (simp add: k_def)
  qed
  show ?thesis
  proof (cases "2 powi ?d \<le> ?x")
    case True
    have "binary_exponent ?x = ?d" using True hi x by (rule binary_exponent_unique)
    with True test show ?thesis by (simp add: Let_def)
  next
    case False
    then have "?x < 2 powi (?d - 1 + 1)" by simp
    with lo have "binary_exponent ?x = ?d - 1" using x by (rule binary_exponent_unique)
    with False test show ?thesis by (simp add: Let_def)
  qed
qed

lemma py_float_quotient:
  assumes q: "0 < q"
  shows "py_float (of_int p / of_int q) = float_of_quotient p q"
proof (cases "p = 0")
  case True
  then show ?thesis by (simp add: float_of_quotient_def py_float_def)
next
  case False
  let ?x = "(of_int p :: rat) / of_int q"
  have x0: "?x \<noteq> 0" using False q by simp
  have ab: "\<bar>?x\<bar> = of_int \<bar>p\<bar> / of_int q" using q by simp
  have a: "0 < \<bar>p\<bar>" using False by simp
  define s where "s = max (binary_exponent \<bar>?x\<bar>) (- 1022) - 52"
  have u: "double_ulp ?x = 2 powi s" by (simp only: double_ulp_def s_def)
  have s_code:
    "max (if (if 0 \<le> bitlen \<bar>p\<bar> - bitlen q
              then 2 ^ nat (bitlen \<bar>p\<bar> - bitlen q) * q \<le> \<bar>p\<bar>
              else q \<le> 2 ^ nat (- (bitlen \<bar>p\<bar> - bitlen q)) * \<bar>p\<bar>)
          then bitlen \<bar>p\<bar> - bitlen q else bitlen \<bar>p\<bar> - bitlen q - 1) (- 1022) - 52 = s"
    unfolding s_def ab quotient_exponent [OF a q] Let_def ..
  have f: "py_float ?x = of_int (round_half_even (?x / 2 powi s)) * 2 powi s"
    using x0 by (simp only: py_float_def u if_False)
  have r: "py_float ?x
      = (if 0 \<le> s then of_int (round_div p (q * 2 ^ nat s) * 2 ^ nat s)
         else Fract (round_div (p * 2 ^ nat (- s)) q) (2 ^ nat (- s)))"
  proof (cases "0 \<le> s")
    case True
    define k where "k = nat s"
    have p2: "(2::rat) powi s = 2 ^ k"
      using True by (simp add: k_def power_int_nonneg_exp)
    have d: "0 < q * 2 ^ k" using q by simp
    have "?x / 2 ^ k = of_int p / of_int (q * 2 ^ k)" by simp
    then have rr: "round_half_even (?x / 2 ^ k) = round_div p (q * 2 ^ k)"
      by (simp only: round_half_even_quotient [OF d])
    have "py_float ?x = of_int (round_div p (q * 2 ^ k)) * 2 ^ k"
      by (simp only: f p2 rr)
    also have "\<dots> = of_int (round_div p (q * 2 ^ k) * 2 ^ k)" by simp
    finally show ?thesis using True by (simp only: k_def if_True)
  next
    case False
    define k where "k = nat (- s)"
    have n: "s = - int k" using False by (simp add: k_def)
    have p2: "(2::rat) powi s = 1 / 2 ^ k"
      by (simp only: n power_int_minus_divide power_int_of_nat)
    have "?x / (1 / 2 ^ k) = of_int (p * 2 ^ k) / of_int q" by simp
    then have rr: "round_half_even (?x / (1 / 2 ^ k)) = round_div (p * 2 ^ k) q"
      by (simp only: round_half_even_quotient [OF q])
    have "py_float ?x = of_int (round_div (p * 2 ^ k) q) * (1 / 2 ^ k)"
      by (simp only: f p2 rr)
    also have "\<dots> = of_int (round_div (p * 2 ^ k) q) / of_int (2 ^ k)" by simp
    also have "\<dots> = Fract (round_div (p * 2 ^ k) q) (2 ^ k)"
      by (simp only: Fract_of_int_quotient)
    finally show ?thesis using False by (simp only: k_def if_False)
  qed
  have fq: "float_of_quotient p q
      = (if 0 \<le> s then of_int (round_div p (q * 2 ^ nat s) * 2 ^ nat s)
         else Fract (round_div (p * 2 ^ nat (- s)) q) (2 ^ nat (- s)))"
    unfolding float_of_quotient_def Let_def s_code using False by (simp only: if_False)
  show ?thesis by (simp only: r fq)
qed

lemma py_float_code [code]:
  "py_float x = (case quotient_of x of (p, q) \<Rightarrow> float_of_quotient p q)"
proof -
  obtain p q where pq: "quotient_of x = (p, q)" by (cases "quotient_of x")
  then have q: "0 < q" by (rule quotient_of_denom_pos)
  have x: "x = of_int p / of_int q" using pq by (rule quotient_of_div)
  show ?thesis unfolding pq prod.case by (simp only: x py_float_quotient [OF q])
qed

lemma double_ulp_pos: "0 < double_ulp x"
  by (simp add: double_ulp_def)

lemma py_float_nonneg:
  assumes "0 \<le> x"
  shows "0 \<le> py_float x"
proof (cases "x = 0")
  case True
  then show ?thesis by (simp add: py_float_def)
next
  case False
  have "0 \<le> x / double_ulp x" using assms double_ulp_pos [of x] by simp
  then have "round_half_even 0 \<le> round_half_even (x / double_ulp x)"
    by (rule round_half_even_mono)
  then have "0 \<le> round_half_even (x / double_ulp x)"
    using round_half_even_of_int [of 0] by simp
  with False double_ulp_pos [of x] show ?thesis by (simp add: py_float_def)
qed

text \<open>Rounding is monotone: within one binade the grid is the same, and a power of
  two between the two numbers lies on both grids.\<close>

lemma py_float_mono:
  assumes "0 \<le> x" "x \<le> y"
  shows "py_float x \<le> py_float y"
proof (cases "x = 0")
  case True
  have "0 \<le> py_float y" using assms by (intro py_float_nonneg) simp
  with True show ?thesis by (simp add: py_float_def)
next
  case False
  then have x: "0 < x" using assms by simp
  then have y: "0 < y" using assms by simp
  let ?ex = "binary_exponent x" and ?ey = "binary_exponent y"
  let ?sx = "max ?ex (- 1022)" and ?sy = "max ?ey (- 1022)"
  have ux: "double_ulp x = 2 powi (?sx - 52)" using x by (simp add: double_ulp_def)
  have uy: "double_ulp y = 2 powi (?sy - 52)" using y by (simp add: double_ulp_def)
  have fx: "py_float x = of_int (round_half_even (x / double_ulp x)) * double_ulp x"
    using x by (simp add: py_float_def)
  have fy: "py_float y = of_int (round_half_even (y / double_ulp y)) * double_ulp y"
    using y by (simp add: py_float_def)
  have e: "?ex \<le> ?ey" using x assms(2) by (rule binary_exponent_mono)
  show ?thesis
  proof (cases "?sx = ?sy")
    case True
    then have u: "double_ulp y = double_ulp x" by (simp add: ux uy)
    have "x / double_ulp x \<le> y / double_ulp x"
      using assms(2) double_ulp_pos [of x] by (simp add: divide_right_mono)
    then have "round_half_even (x / double_ulp x) \<le> round_half_even (y / double_ulp x)"
      by (rule round_half_even_mono)
    then have "(of_int (round_half_even (x / double_ulp x)) :: rat)
        \<le> of_int (round_half_even (y / double_ulp x))"
      by (simp only: of_int_le_iff)
    then show ?thesis
      unfolding fx fy u using double_ulp_pos [of x] by (simp add: mult_right_mono)
  next
    case False
    with e have lt: "?sx < ?sy" by linarith
    then have sy: "?sy = ?ey" by linarith
    from lt have exy: "?ex + 1 \<le> ?ey" and sxy: "?sx < ?ey" by linarith+
    have xlt: "x \<le> 2 powi ?ey"
    proof -
      have "x < 2 powi (?ex + 1)" using x by (rule binary_exponent_bounds)
      also have "\<dots> \<le> 2 powi ?ey" using exy by (intro power_int_increasing) simp_all
      finally show ?thesis by simp
    qed
    have yge: "2 powi ?ey \<le> y" using y by (rule binary_exponent_bounds)
    have kx: "(2::rat) powi ?ey / double_ulp x = of_int (2 ^ nat (?ey - ?sx + 52))"
    proof -
      have "(2::rat) powi ?ey / double_ulp x = 2 powi (?ey - (?sx - 52))"
        unfolding ux by (simp add: power_int_diff)
      also have "\<dots> = of_int (2 ^ nat (?ey - ?sx + 52))"
        using sxy by (subst pow2_int) (simp_all add: algebra_simps)
      finally show ?thesis .
    qed
    have ky: "(2::rat) powi ?ey / double_ulp y = of_int (2 ^ 52)"
    proof -
      have "(2::rat) powi ?ey / double_ulp y = 2 powi (?ey - (?ey - 52))"
        unfolding uy sy by (simp add: power_int_diff)
      then show ?thesis by simp
    qed
    have "x / double_ulp x \<le> 2 powi ?ey / double_ulp x"
      using xlt double_ulp_pos [of x] by (simp add: divide_right_mono)
    then have "round_half_even (x / double_ulp x) \<le> 2 ^ nat (?ey - ?sx + 52)"
      unfolding kx by (rule round_half_even_le_int)
    then have "(of_int (round_half_even (x / double_ulp x)) :: rat)
        \<le> of_int (2 ^ nat (?ey - ?sx + 52))"
      by (simp only: of_int_le_iff)
    then have "py_float x \<le> of_int (2 ^ nat (?ey - ?sx + 52)) * double_ulp x"
      unfolding fx using double_ulp_pos [of x] by (simp add: mult_right_mono)
    also have "\<dots> = 2 powi ?ey"
      using kx double_ulp_pos [of x] by (simp add: field_simps)
    finally have a: "py_float x \<le> 2 powi ?ey" .
    have "2 powi ?ey / double_ulp y \<le> y / double_ulp y"
      using yge double_ulp_pos [of y] by (simp add: divide_right_mono)
    then have "2 ^ 52 \<le> round_half_even (y / double_ulp y)"
      unfolding ky by (rule round_half_even_ge_int)
    then have "(of_int (2 ^ 52) :: rat) \<le> of_int (round_half_even (y / double_ulp y))"
      by (simp only: of_int_le_iff)
    then have "of_int (2 ^ 52) * double_ulp y \<le> py_float y"
      unfolding fy using double_ulp_pos [of y] by (simp add: mult_right_mono)
    moreover have "of_int (2 ^ 52) * double_ulp y = 2 powi ?ey"
      using ky double_ulp_pos [of y] by (simp add: field_simps)
    ultimately have b: "2 powi ?ey \<le> py_float y" by simp
    from a b show ?thesis by simp
  qed
qed

lemma py_float_0 [simp]: "py_float 0 = 0"
  by (simp add: py_float_def)

lemma py_float_1 [simp]: "py_float 1 = 1"
  by code_simp

lemma py_float_tenth: "py_float (1 / 10) = 3602879701896397 / 36028797018963968"
  by code_simp

lemma py_float_le_1: "0 \<le> x \<Longrightarrow> x \<le> 1 \<Longrightarrow> py_float x \<le> 1"
  using py_float_mono [of x 1] by simp

text \<open>Between 0 and 1 a double is at most \<open>2^(-54)\<close> away from the number it rounds.\<close>

lemma py_float_error_unit:
  assumes "0 \<le> x" "x \<le> 1"
  shows "\<bar>py_float x - x\<bar> \<le> 1 / 2 ^ 54"
proof (cases "x = 0 \<or> x = 1")
  case True
  then show ?thesis by auto
next
  case False
  with assms have x: "0 < x" "x < 1" by simp_all
  have "(2::rat) powi binary_exponent x \<le> x" using x(1) by (rule binary_exponent_bounds)
  also have "x < 2 powi 0" using x(2) by simp
  finally have "binary_exponent x < 0" by (rule pow2_less_exp)
  then have "max (binary_exponent x) (- 1022) - 52 \<le> - 53" by simp
  then have "(2::rat) powi (max (binary_exponent x) (- 1022) - 52) \<le> 2 powi (- 53)"
    by (intro power_int_increasing) simp_all
  then have u: "double_ulp x \<le> 1 / 2 ^ 53"
    using x(1) by (simp add: double_ulp_def power_int_minus_divide)
  have fx: "py_float x = of_int (round_half_even (x / double_ulp x)) * double_ulp x"
    using x by (simp add: py_float_def)
  have "py_float x - x
      = (of_int (round_half_even (x / double_ulp x)) - x / double_ulp x) * double_ulp x"
    unfolding fx using double_ulp_pos [of x] by (simp add: field_simps)
  then have "\<bar>py_float x - x\<bar>
      = \<bar>of_int (round_half_even (x / double_ulp x)) - x / double_ulp x\<bar> * double_ulp x"
    using double_ulp_pos [of x] by (simp add: abs_mult)
  also have "\<dots> \<le> 1 / 2 * double_ulp x"
    using round_half_even_error [of "x / double_ulp x"] double_ulp_pos [of x]
    by (intro mult_right_mono) simp_all
  also have "\<dots> \<le> 1 / 2 * (1 / 2 ^ 53)"
    using u by (intro mult_left_mono) simp_all
  finally show ?thesis by simp
qed

lemma py_float_of_int:
  assumes "0 \<le> c" "c < 2 ^ 53"
  shows "py_float (of_int c) = of_int c"
proof (cases "c = 0")
  case True
  then show ?thesis by simp
next
  case False
  with assms have c: "0 < c" by simp
  let ?x = "of_int c :: rat"
  let ?e = "binary_exponent ?x"
  have x: "0 < ?x" using c by simp
  have "(2::rat) powi 0 \<le> ?x" using c by simp
  also have "?x < 2 powi (?e + 1)" using x by (rule binary_exponent_bounds)
  finally have "0 < ?e + 1" by (rule pow2_less_exp)
  then have e0: "0 \<le> ?e" by simp
  have "(2::rat) powi ?e \<le> ?x" using x by (rule binary_exponent_bounds)
  also have "?x < of_int (2 ^ 53)" using assms(2) by (simp only: of_int_less_iff)
  also have "(of_int (2 ^ 53) :: rat) = 2 powi 53" by simp
  finally have e53: "?e < 53" by (rule pow2_less_exp)
  have u: "double_ulp ?x = 2 powi (?e - 52)"
    using c e0 by (simp add: double_ulp_def)
  have "?x / double_ulp ?x = ?x * 2 powi (52 - ?e)"
    unfolding u by (simp add: power_int_diff field_simps)
  also have "(2::rat) powi (52 - ?e) = of_int (2 ^ nat (52 - ?e))"
    using e53 by (intro pow2_int) simp
  finally have q: "?x / double_ulp ?x = of_int (c * 2 ^ nat (52 - ?e))" by simp
  have "py_float ?x = of_int (round_half_even (?x / double_ulp ?x)) * double_ulp ?x"
    using c by (simp add: py_float_def)
  also have "\<dots> = ?x / double_ulp ?x * double_ulp ?x"
    by (simp only: q round_half_even_of_int)
  also have "\<dots> = ?x" using double_ulp_pos [of ?x] by simp
  finally show ?thesis .
qed

subsection \<open>The trail levels\<close>

lemma length_range_down: "length (range_down n) = nat (n + 1)"
  by (simp add: range_down_def)

lemma nth_range_down:
  assumes "0 \<le> k" "k \<le> n"
  shows "range_down n ! nat k = n - k"
proof -
  have lt: "nat k < length [0..n]" using assms by simp
  have "rev [0..n] ! nat k = [0..n] ! (length [0..n] - Suc (nat k))"
    using lt by (rule rev_nth)
  also have "length [0..n] - Suc (nat k) = nat (n - k)"
    using assms by (simp add: nat_diff_distrib)
  also have "[0..n] ! nat (n - k) = 0 + int (nat (n - k))"
    using assms by (intro nth_upto) simp
  finally show ?thesis using assms by (simp add: range_down_def)
qed

lemma trail_quotient_unit:
  assumes "0 \<le> t" "t \<le> max 1 n"
  shows "0 \<le> (of_int t :: rat) / of_int (max 1 n)" "(of_int t :: rat) / of_int (max 1 n) \<le> 1"
proof -
  have pos: "(0::rat) < of_int (max 1 n)" by simp
  show "0 \<le> (of_int t :: rat) / of_int (max 1 n)" using assms(1) pos by simp
  have "(of_int t :: rat) \<le> of_int (max 1 n)" using assms(2) by (simp only: of_int_le_iff)
  then show "(of_int t :: rat) / of_int (max 1 n) \<le> 1" using pos by (simp add: divide_le_eq)
qed

lemma trail_factor_last: "trail_factor n 0 = 1"
  by (simp add: trail_factor_def py_float_tenth)

lemma trail_factor_first: "1 \<le> n \<Longrightarrow> trail_factor n n = py_float (1 / 10)"
  by (simp add: trail_factor_def py_float_tenth)

lemma trail_factor_mono:
  assumes "0 \<le> j" "j \<le> k" "k \<le> n"
  shows "trail_factor n (n - j) \<le> trail_factor n (n - k)"
proof -
  let ?m = "max 1 n"
  let ?q = "\<lambda>t. (of_int t :: rat) / of_int ?m"
  have pos: "(0::rat) < of_int ?m" by simp
  have tk: "0 \<le> n - k" "n - k \<le> ?m" and tj: "0 \<le> n - j" "n - j \<le> ?m"
    using assms by simp_all
  have "(of_int (n - k) :: rat) \<le> of_int (n - j)" using assms by simp
  then have "?q (n - k) \<le> ?q (n - j)" using pos by (simp add: divide_right_mono)
  with trail_quotient_unit(1) [OF tk] have "py_float (?q (n - k)) \<le> py_float (?q (n - j))"
    by (rule py_float_mono)
  then have le: "1 - py_float (?q (n - j)) \<le> 1 - py_float (?q (n - k))" by simp
  have "py_float (?q (n - j)) \<le> 1"
    using trail_quotient_unit [OF tj] by (rule py_float_le_1)
  then have "0 \<le> 1 - py_float (?q (n - j))" by simp
  then have "py_float (1 - py_float (?q (n - j))) \<le> py_float (1 - py_float (?q (n - k)))"
    using le by (rule py_float_mono)
  then show ?thesis unfolding trail_factor_def by (intro max.mono) simp_all
qed

lemma max_close:
  fixes a b c d e :: rat
  assumes "\<bar>a - c\<bar> \<le> e" "\<bar>b - d\<bar> \<le> e"
  shows "\<bar>max a b - max c d\<bar> \<le> e"
  using assms by (auto simp: max_def abs_le_iff)

lemma two_roundings:
  fixes x y a e :: rat
  assumes "\<bar>x - a\<bar> \<le> e" "\<bar>y - (1 - x)\<bar> \<le> e"
  shows "\<bar>y - (1 - a)\<bar> \<le> e + e"
  using assms by (simp add: abs_le_iff)

text \<open>The factor of level \<open>k\<close> is the ramp \<open>max(0.1, k / trail_len)\<close> up to two
  roundings.\<close>

lemma trail_factor_near:
  assumes "0 \<le> k" "k \<le> n" "1 \<le> n"
  shows "\<bar>trail_factor n (n - k) - max (1 / 10) (of_int k / of_int n)\<bar> \<le> 1 / 2 ^ 53"
proof -
  let ?a = "(of_int (n - k) :: rat) / of_int (max 1 n)"
  have m: "max 1 n = n" using assms(3) by simp
  have t: "0 \<le> n - k" "n - k \<le> max 1 n" using assms by simp_all
  note a = trail_quotient_unit [OF t]
  have x0: "0 \<le> py_float ?a" using a(1) by (rule py_float_nonneg)
  have x1: "py_float ?a \<le> 1" using a by (rule py_float_le_1)
  have e1: "\<bar>py_float ?a - ?a\<bar> \<le> 1 / 2 ^ 54" using a by (rule py_float_error_unit)
  have e2: "\<bar>py_float (1 - py_float ?a) - (1 - py_float ?a)\<bar> \<le> 1 / 2 ^ 54"
    using x0 x1 by (intro py_float_error_unit) simp_all
  have ramp: "1 - ?a = of_int k / of_int n"
    using assms(3) by (simp add: m diff_divide_distrib)
  have "\<bar>py_float (1 - py_float ?a) - (1 - ?a)\<bar> \<le> 1 / 2 ^ 54 + 1 / 2 ^ 54"
    using e1 e2 by (rule two_roundings)
  also have "(1::rat) / 2 ^ 54 + 1 / 2 ^ 54 = 1 / 2 ^ 53" by simp
  finally have y: "\<bar>py_float (1 - py_float ?a) - of_int k / of_int n\<bar> \<le> 1 / 2 ^ 53"
    by (simp only: ramp)
  have d: "\<bar>py_float (1 / 10) - 1 / 10\<bar> \<le> 1 / 2 ^ 53"
    by (simp add: py_float_tenth)
  from d y show ?thesis unfolding trail_factor_def by (rule max_close)
qed

lemma py_int_floor: "0 \<le> x \<Longrightarrow> py_int x = \<lfloor>x\<rfloor>"
  by (simp add: py_int_def)

lemma scale_channel_floor:
  assumes "0 \<le> c" "0 \<le> f"
  shows "scale_channel c f = \<lfloor>py_float (py_float (of_int c) * f)\<rfloor>"
proof -
  have "0 \<le> py_float (of_int c)" using assms(1) by (intro py_float_nonneg) simp
  then have "0 \<le> py_float (of_int c) * f" using assms(2) by simp
  then have "0 \<le> py_float (py_float (of_int c) * f)" by (rule py_float_nonneg)
  then show ?thesis by (simp add: scale_channel_def py_int_floor)
qed

lemma nth_precompute_trail:
  assumes "0 \<le> k" "k \<le> trail_len evt"
  shows "precompute_trail evt ! nat k
           = trail_level (color evt) (trail_factor (trail_len evt) (trail_len evt - k))"
proof -
  have "nat k < length (range_down (trail_len evt))"
    using assms by (simp add: length_range_down)
  then show ?thesis
    using assms by (simp add: precompute_trail_def nth_range_down)
qed

lemma length_precompute_trail: "length (precompute_trail evt) = nat (trail_len evt + 1)"
  by (simp add: precompute_trail_def length_range_down)

lemma scale_channel_small:
  assumes "0 \<le> c" "c < 2 ^ 53" "0 \<le> f"
  shows "scale_channel c f = \<lfloor>py_float (of_int c * f)\<rfloor>"
  using scale_channel_floor [OF assms(1,3)] py_float_of_int [OF assms(1,2)] by simp

text \<open>
  C7, as the claim states it, fails: the factors are not a linear rise from 0.1 to 1.0.
  For a trail of four the code's levels of the colour (0, 200, 0) are 20, 50, 100, 150,
  200; a linear rise from 0.1 would give 20, 65, 110, 155, 200.  With a trail of zero
  the only level has factor 1.0, so the sequence does not start at 0.1 either.
\<close>

theorem trail_factor_not_linear:
  "precompute_trail ex_event = [(0, 20, 0), (0, 50, 0), (0, 100, 0), (0, 150, 0), (0, 200, 0)]
   \<and> map (\<lambda>k. spec_trail_level (color ex_event) (spec_linear_factor (trail_len ex_event) k))
         [0, 1, 2, 3, 4]
       = [(0, 20, 0), (0, 65, 0), (0, 110, 0), (0, 155, 0), (0, 200, 0)]
   \<and> precompute_trail (ex_event\<lparr>trail_len := 0\<rparr>) = [(0, 200, 0)]"
  by code_simp

text \<open>
  C7, amended.  For an event with \<open>trail_len \<ge> 0\<close> the sequence has \<open>trail_len + 1\<close>
  levels; level \<open>k\<close> is the colour scaled by the factor the code computes in double
  precision, \<open>max(0.1, 1.0 - (trail_len - k) / trail_len)\<close>, which is the ramp
  \<open>max(0.1, k / trail_len)\<close> up to \<open>2^(-53)\<close> (the single level of an empty trail has
  factor 1); the factors are non-decreasing along the sequence, the last is 1.0
  and, for \<open>trail_len \<ge> 1\<close>, the first is the double nearest to 0.1; each channel is
  the truncation of the product of channel and factor rounded to a double, which is
  the floor of that double for a channel that is not negative.
\<close>

theorem precompute_trail_levels:
  "0 \<le> trail_len evt \<Longrightarrow>
     length (precompute_trail evt) = nat (trail_len evt + 1)
   \<and> (\<forall>k. 0 \<le> k \<and> k \<le> trail_len evt \<longrightarrow>
          precompute_trail evt ! nat k
            = trail_level (color evt) (trail_factor (trail_len evt) (trail_len evt - k))
        \<and> \<bar>trail_factor (trail_len evt) (trail_len evt - k)
             - (if trail_len evt = 0 then 1
                else max (1 / 10) (of_int k / of_int (trail_len evt)))\<bar> \<le> 1 / 2 ^ 53)
   \<and> (\<forall>j k. 0 \<le> j \<and> j \<le> k \<and> k \<le> trail_len evt \<longrightarrow>
          trail_factor (trail_len evt) (trail_len evt - j)
            \<le> trail_factor (trail_len evt) (trail_len evt - k))
   \<and> trail_factor (trail_len evt) 0 = 1
   \<and> (1 \<le> trail_len evt \<longrightarrow>
          trail_factor (trail_len evt) (trail_len evt) = 3602879701896397 / 36028797018963968)
   \<and> (\<forall>r g b f. 0 \<le> r \<and> r < 2 ^ 53 \<and> 0 \<le> g \<and> g < 2 ^ 53 \<and> 0 \<le> b \<and> b < 2 ^ 53 \<and> 0 \<le> f \<longrightarrow>
          trail_level (r, g, b) f
            = (\<lfloor>py_float (of_int r * f)\<rfloor>, \<lfloor>py_float (of_int g * f)\<rfloor>,
               \<lfloor>py_float (of_int b * f)\<rfloor>))"
proof (intro conjI allI impI)
  show "length (precompute_trail evt) = nat (trail_len evt + 1)"
    by (rule length_precompute_trail)
next
  fix k assume "0 \<le> k \<and> k \<le> trail_len evt"
  then show "precompute_trail evt ! nat k
      = trail_level (color evt) (trail_factor (trail_len evt) (trail_len evt - k))"
    by (simp add: nth_precompute_trail)
next
  fix k assume k: "0 \<le> k \<and> k \<le> trail_len evt"
  show "\<bar>trail_factor (trail_len evt) (trail_len evt - k)
             - (if trail_len evt = 0 then 1
                else max (1 / 10) (of_int k / of_int (trail_len evt)))\<bar> \<le> 1 / 2 ^ 53"
  proof (cases "trail_len evt = 0")
    case True
    with k have "k = 0" by simp
    with True show ?thesis by (simp add: trail_factor_last)
  next
    case False
    with k have "1 \<le> trail_len evt" by simp
    with k have "\<bar>trail_factor (trail_len evt) (trail_len evt - k)
        - max (1 / 10) (of_int k / of_int (trail_len evt))\<bar> \<le> 1 / 2 ^ 53"
      by (intro trail_factor_near) simp_all
    with False show ?thesis by (simp only: if_False)
  qed
next
  fix j k :: int assume "0 \<le> j \<and> j \<le> k \<and> k \<le> trail_len evt"
  then show "trail_factor (trail_len evt) (trail_len evt - j)
      \<le> trail_factor (trail_len evt) (trail_len evt - k)"
    by (intro trail_factor_mono) simp_all
next
  show "trail_factor (trail_len evt) 0 = 1"
    by (rule trail_factor_last)
next
  assume "1 \<le> trail_len evt"
  then show "trail_factor (trail_len evt) (trail_len evt) = 3602879701896397 / 36028797018963968"
    by (simp add: trail_factor_first py_float_tenth)
next
  fix r g b :: int and f :: rat
  assume "0 \<le> r \<and> r < 2 ^ 53 \<and> 0 \<le> g \<and> g < 2 ^ 53 \<and> 0 \<le> b \<and> b < 2 ^ 53 \<and> 0 \<le> f"
  then show "trail_level (r, g, b) f
      = (\<lfloor>py_float (of_int r * f)\<rfloor>, \<lfloor>py_float (of_int g * f)\<rfloor>, \<lfloor>py_float (of_int b * f)\<rfloor>)"
    by (simp add: trail_level_def scale_channel_small)
qed

theorem precompute_trail_levels_witness:
  "0 \<le> trail_len ex_default
   \<and> length (precompute_trail ex_default) = 6
   \<and> precompute_trail ex_default ! 1 = trail_level (0, 255, 0) (trail_factor 5 4)
   \<and> \<bar>trail_factor 5 4 - max (1 / 10) (1 / 5)\<bar> \<le> 1 / 2 ^ 53
   \<and> trail_factor 5 4 = 900719925474099 / 4503599627370496
   \<and> trail_factor 5 4 \<le> trail_factor 5 3
   \<and> trail_factor 5 5 = 3602879701896397 / 36028797018963968
   \<and> trail_level (0, 255, 0) (900719925474099 / 4503599627370496)
       = (\<lfloor>py_float (of_int 0 * (900719925474099 / 4503599627370496))\<rfloor>,
          \<lfloor>py_float (of_int 255 * (900719925474099 / 4503599627370496))\<rfloor>,
          \<lfloor>py_float (of_int 0 * (900719925474099 / 4503599627370496))\<rfloor>)
   \<and> \<lfloor>py_float (of_int 255 * (900719925474099 / 4503599627370496))\<rfloor> = 50
   \<and> precompute_trail ex_default
       = [(0, 25, 0), (0, 50, 0), (0, 102, 0), (0, 153, 0), (0, 204, 0), (0, 255, 0)]"
proof -
  have h: "0 \<le> trail_len ex_default" by code_simp
  have tl: "trail_len ex_default = 5" and col: "color ex_default = (0, 255, 0)" by code_simp+
  note t = precompute_trail_levels [OF h]
  have k1: "0 \<le> (1::int) \<and> 1 \<le> trail_len ex_default" by (simp add: tl)
  note t1 = t [THEN conjunct2, THEN conjunct1, rule_format, OF k1]
  have len: "length (precompute_trail ex_default) = 6"
    using t [THEN conjunct1] by (simp add: tl)
  have lvl: "precompute_trail ex_default ! 1 = trail_level (0, 255, 0) (trail_factor 5 4)"
    using t1 [THEN conjunct1] by (simp add: tl col)
  have near: "\<bar>trail_factor 5 4 - max (1 / 10) (1 / 5)\<bar> \<le> 1 / 2 ^ 53"
    using t1 [THEN conjunct2] by (simp add: tl)
  have val: "trail_factor 5 4 = 900719925474099 / 4503599627370496" by code_simp
  have jk: "0 \<le> (1::int) \<and> (1::int) \<le> 2 \<and> 2 \<le> trail_len ex_default" by (simp add: tl)
  have mono: "trail_factor 5 4 \<le> trail_factor 5 3"
    using t [THEN conjunct2, THEN conjunct2, THEN conjunct1, rule_format, OF jk]
    by (simp add: tl)
  have one: "1 \<le> trail_len ex_default" by (simp add: tl)
  have first: "trail_factor 5 5 = 3602879701896397 / 36028797018963968"
    using t [THEN conjunct2, THEN conjunct2, THEN conjunct2, THEN conjunct2, THEN conjunct1,
        rule_format, OF one]
    by (simp add: tl)
  have ch: "0 \<le> (0::int) \<and> (0::int) < 2 ^ 53 \<and> 0 \<le> (255::int) \<and> (255::int) < 2 ^ 53
      \<and> 0 \<le> (0::int) \<and> (0::int) < 2 ^ 53 \<and> 0 \<le> (900719925474099 / 4503599627370496 :: rat)"
    by simp
  note fl = t [THEN conjunct2, THEN conjunct2, THEN conjunct2, THEN conjunct2, THEN conjunct2,
      rule_format, OF ch]
  have fifty: "\<lfloor>py_float (of_int 255 * (900719925474099 / 4503599627370496))\<rfloor> = 50"
    by code_simp
  have all: "precompute_trail ex_default
       = [(0, 25, 0), (0, 50, 0), (0, 102, 0), (0, 153, 0), (0, 204, 0), (0, 255, 0)]"
    by code_simp
  from h len lvl near val mono first fl fifty all show ?thesis by (intro conjI)
qed

section \<open>The compositor's entry checks\<close>

lemma run_events_parallel_truncates:
  "run_events_parallel evs startup elapsed trace cleanup w
     = run_events_parallel (take 2 evs) startup elapsed trace cleanup w"
proof (cases "length evs > 2")
  case True
  then have "take 2 evs \<noteq> []" "evs \<noteq> []" "\<not> length (take 2 evs) > 2" by auto
  with True show ?thesis by (simp add: run_events_parallel_def)
next
  case False
  then have "take 2 evs = evs" by simp
  then show ?thesis by simp
qed

lemma validate_pair_mismatch:
  assumes "rail_leds e1 \<noteq> rail_leds e2 \<or> laps_m e1 \<noteq> laps_m e2"
  shows "\<exists>msg. validate n (laps_m e1) [e1, e2] = Some (ValueError msg)"
  using assms by auto

text \<open>
  C8.  A parallel submission runs on its first two events only, and a pair whose
  \<open>rail_leds\<close> or \<open>laps_m\<close> differ is refused with a \<open>ValueError\<close>: the outcome carries
  the world the call started from, so no pixel was written and no frame flushed, and
  it does not depend on the loop's events.
\<close>

theorem parallel_rejects_mismatch:
  "run_events_parallel evs startup elapsed trace cleanup w
     = run_events_parallel (take 2 evs) startup elapsed trace cleanup w
   \<and> (rail_leds ea \<noteq> rail_leds eb \<or> laps_m ea \<noteq> laps_m eb \<longrightarrow>
        (\<exists>msg. run_events_parallel (ea # eb # rest) startup elapsed trace cleanup w
                 = Raised (ValueError msg) w))"
proof (intro conjI impI)
  show "run_events_parallel evs startup elapsed trace cleanup w
     = run_events_parallel (take 2 evs) startup elapsed trace cleanup w"
    by (rule run_events_parallel_truncates)
next
  assume diff: "rail_leds ea \<noteq> rail_leds eb \<or> laps_m ea \<noteq> laps_m eb"
  obtain msg where v: "validate (numPixels w) (laps_m ea) [ea, eb] = Some (ValueError msg)"
    using validate_pair_mismatch [OF diff] by blast
  have "run_events_parallel (ea # eb # rest) startup elapsed trace cleanup w
      = run_events_parallel [ea, eb] startup elapsed trace cleanup w"
    using run_events_parallel_truncates [of "ea # eb # rest"] by simp
  also have "\<dots> = Raised (ValueError msg) w"
    using v by (simp add: run_events_parallel_def)
  finally show "\<exists>msg. run_events_parallel (ea # eb # rest) startup elapsed trace cleanup w
                 = Raised (ValueError msg) w"
    by blast
qed

theorem parallel_rejects_mismatch_witness:
  "laps_m ex_event \<noteq> laps_m (ex_event\<lparr>laps_m := 300\<rparr>)
   \<and> (\<exists>msg. run_events_parallel [ex_event, ex_event\<lparr>laps_m := 300\<rparr>] NoFault 0
                [Tick NoFault] NoFault ex_world
              = Raised (ValueError msg) ex_world)
   \<and> run_events_parallel [ex_event, ex_event\<lparr>laps_m := 300\<rparr>] NoFault 0 [Tick NoFault]
         NoFault ex_world
       = Raised (ValueError ''All events must use the same lap length to run in parallel.'')
           ex_world"
proof -
  have l: "laps_m ex_event \<noteq> laps_m (ex_event\<lparr>laps_m := 300\<rparr>)"
    by (simp add: ex_event_def)
  then have h: "rail_leds ex_event \<noteq> rail_leds (ex_event\<lparr>laps_m := 300\<rparr>)
      \<or> laps_m ex_event \<noteq> laps_m (ex_event\<lparr>laps_m := 300\<rparr>)"
    by (rule disjI2)
  note t = parallel_rejects_mismatch [where ea = ex_event and eb = "ex_event\<lparr>laps_m := 300\<rparr>"
      and rest = "[]" and startup = NoFault and elapsed = 0 and trace = "[Tick NoFault]"
      and cleanup = NoFault and w = ex_world]
  note r = t [THEN conjunct2, rule_format, OF h]
  have v: "run_events_parallel [ex_event, ex_event\<lparr>laps_m := 300\<rparr>] NoFault 0 [Tick NoFault]
         NoFault ex_world
       = Raised (ValueError ''All events must use the same lap length to run in parallel.'')
           ex_world"
    by (simp add: run_events_parallel_def ex_event_def ex_world_def numPixels_def)
  from l r v show ?thesis by (intro conjI)
qed

lemma init_states_skip:
  assumes "laps_m ea \<noteq> 0" "constant_velocity ea \<le> 0"
  shows "init_states n (ea # evs) = init_states n evs"
  using assms by (simp add: leds_per_meter_value constant_velocity_def)

lemma init_states_skip_last:
  assumes "laps_m ea \<noteq> 0" "constant_velocity ea \<le> 0"
  shows "init_states n [eb, ea] = init_states n [eb]"
  using assms
  by (simp add: leds_per_meter_value constant_velocity_def Let_def split: sum.splits)

lemma init_states_none:
  assumes "laps_m ea \<noteq> 0" "constant_velocity ea \<le> 0"
  shows "init_states n [ea] = Inr []"
  using assms by (simp add: leds_per_meter_value constant_velocity_def)

text \<open>
  C10.  In a parallel submission that passes validation, an event whose constant-pace
  velocity is not positive is left out whatever its splits are: the run is the run of
  the other event alone, and when no event is left it returns at once with the world
  untouched (no frame pushed, \<open>running\<close> not set).
\<close>

theorem parallel_excludes_nonpositive:
  assumes "rail_leds ea = numPixels w" and "rail_leds eb = numPixels w"
    and "laps_m eb = laps_m ea" and "laps_m ea \<noteq> 0"
    and "constant_velocity ea \<le> 0"
  shows "run_events_parallel [ea, eb] startup elapsed trace cleanup w
           = run_events_parallel [eb] startup elapsed trace cleanup w
       \<and> run_events_parallel [eb, ea] startup elapsed trace cleanup w
           = run_events_parallel [eb] startup elapsed trace cleanup w
       \<and> run_events_parallel [ea] startup elapsed trace cleanup w = Returned w
       \<and> (constant_velocity eb \<le> 0 \<longrightarrow>
            run_events_parallel [ea, eb] startup elapsed trace cleanup w = Returned w)"
proof (intro conjI impI)
  have skip: "init_states (numPixels w) [ea, eb] = init_states (numPixels w) [eb]"
    using assms(4,5) by (rule init_states_skip)
  have skip_last: "init_states (numPixels w) [eb, ea] = init_states (numPixels w) [eb]"
    using assms(4,5) by (rule init_states_skip_last)
  have none: "init_states (numPixels w) [ea] = Inr []"
    using assms(4,5) by (rule init_states_none)
  show "run_events_parallel [ea, eb] startup elapsed trace cleanup w
           = run_events_parallel [eb] startup elapsed trace cleanup w"
    unfolding run_events_parallel_def using assms(1-3) skip by simp
  show "run_events_parallel [eb, ea] startup elapsed trace cleanup w
           = run_events_parallel [eb] startup elapsed trace cleanup w"
    unfolding run_events_parallel_def using assms(1-3) skip_last by simp
  show "run_events_parallel [ea] startup elapsed trace cleanup w = Returned w"
    unfolding run_events_parallel_def using assms(1) none by simp
  assume eb: "constant_velocity eb \<le> 0"
  have "laps_m eb \<noteq> 0" using assms(3,4) by simp
  then have "init_states (numPixels w) [eb] = Inr []"
    using eb by (rule init_states_none)
  then show "run_events_parallel [ea, eb] startup elapsed trace cleanup w = Returned w"
    unfolding run_events_parallel_def using assms(1-3) skip by simp
qed

theorem parallel_excludes_nonpositive_witness:
  "rail_leds ex_unpaced = numPixels ex_world \<and> rail_leds ex_event = numPixels ex_world
   \<and> laps_m ex_event = laps_m ex_unpaced \<and> laps_m ex_unpaced \<noteq> 0
   \<and> constant_velocity ex_unpaced \<le> 0 \<and> has_splits ex_unpaced
   \<and> run_events_parallel [ex_unpaced, ex_event] NoFault 0 [Stop] NoFault ex_world
       = run_events_parallel [ex_event] NoFault 0 [Stop] NoFault ex_world
   \<and> run_events_parallel [ex_unpaced] NoFault 0 [Tick NoFault] NoFault ex_world
       = Returned ex_world"
proof -
  have h1: "rail_leds ex_unpaced = numPixels ex_world"
    and h2: "rail_leds ex_event = numPixels ex_world"
    and h3: "laps_m ex_event = laps_m ex_unpaced"
    and h4: "laps_m ex_unpaced \<noteq> 0"
    and h5: "constant_velocity ex_unpaced \<le> 0"
    and h6: "has_splits ex_unpaced"
    by (simp_all add: ex_unpaced_def ex_event_def ex_world_def numPixels_def
        constant_velocity_def pace_mps_def has_splits_def)
  show ?thesis
    using h1 h2 h3 h4 h5 h6
      parallel_excludes_nonpositive [OF h1 h2 h3 h4 h5, of NoFault 0 "[Stop]" NoFault]
      parallel_excludes_nonpositive [OF h1 h2 h3 h4 h5, of NoFault 0 "[Tick NoFault]" NoFault]
    by simp
qed

section \<open>The wrap loops\<close>

lemma floor_sub_rail:
  fixes p :: rat
  assumes "0 < n"
  shows "\<lfloor>(p - of_int n) / of_int n\<rfloor> = \<lfloor>p / of_int n\<rfloor> - 1"
proof -
  have "(p - of_int n) / of_int n = p / of_int n - of_int 1"
    using assms by (simp add: diff_divide_distrib)
  then show ?thesis by (simp only: floor_diff_of_int)
qed

lemma floor_ge_one:
  fixes p :: rat
  assumes "0 < n" "of_int n \<le> p"
  shows "1 \<le> \<lfloor>p / of_int n\<rfloor>"
proof -
  have "(1::rat) \<le> p / of_int n" using assms by (simp add: le_divide_eq)
  then show ?thesis by (simp add: le_floor_iff)
qed

lemma wrap_pos_steps:
  assumes n: "0 < n"
  shows "nat \<lfloor>p / of_int n\<rfloor> = k \<Longrightarrow>
     wrap_pos n p = Some (if p < of_int n then p else p - of_int n * of_int \<lfloor>p / of_int n\<rfloor>)"
proof (induction k arbitrary: p rule: less_induct)
  case (less k)
  show ?case
  proof (cases "p < of_int n")
    case True
    then show ?thesis by (subst wrap_pos.simps) simp
  next
    case False
    then have ge: "of_int n \<le> p" by simp
    have fl: "\<lfloor>(p - of_int n) / of_int n\<rfloor> = \<lfloor>p / of_int n\<rfloor> - 1"
      using n by (rule floor_sub_rail)
    have one: "1 \<le> \<lfloor>p / of_int n\<rfloor>" using n ge by (rule floor_ge_one)
    have "nat (\<lfloor>p / of_int n\<rfloor> - 1) < nat \<lfloor>p / of_int n\<rfloor>"
      using one by linarith
    then have smaller: "nat \<lfloor>(p - of_int n) / of_int n\<rfloor> < k"
      using less.prems by (simp only: fl)
    have ih: "wrap_pos n (p - of_int n)
        = Some (if p - of_int n < of_int n then p - of_int n
                else p - of_int n - of_int n * of_int \<lfloor>(p - of_int n) / of_int n\<rfloor>)"
      using less.IH [OF smaller refl] .
    have unfold: "wrap_pos n p = wrap_pos n (p - of_int n)"
      using ge by (subst wrap_pos.simps) simp
    show ?thesis
    proof (cases "p - of_int n < of_int n")
      case True
      have "\<lfloor>(p - of_int n) / of_int n\<rfloor> = 0"
      proof -
        have "0 \<le> (p - of_int n) / of_int n" using ge n by simp
        moreover have "(p - of_int n) / of_int n < 1" using True n by (simp add: divide_less_eq)
        ultimately show ?thesis by (simp add: floor_eq_iff)
      qed
      with fl have "\<lfloor>p / of_int n\<rfloor> = 1" by simp
      with unfold ih True False show ?thesis by simp
    next
      case notlt: False
      from unfold ih notlt False fl show ?thesis by (simp add: algebra_simps)
    qed
  qed
qed

lemma wrap_pos_closed:
  "0 < n \<Longrightarrow>
     wrap_pos n p = Some (if p < of_int n then p else p - of_int n * of_int \<lfloor>p / of_int n\<rfloor>)"
  by (rule wrap_pos_steps) simp_all

lemma frac_range:
  fixes p :: rat
  assumes "0 < n"
  shows "0 \<le> p - of_int n * of_int \<lfloor>p / of_int n\<rfloor>"
    and "p - of_int n * of_int \<lfloor>p / of_int n\<rfloor> < of_int n"
proof -
  have pos: "(0::rat) < of_int n" using assms by simp
  have "of_int \<lfloor>p / of_int n\<rfloor> \<le> p / of_int n" by (rule of_int_floor_le)
  then have "of_int \<lfloor>p / of_int n\<rfloor> * of_int n \<le> p"
    using pos by (simp add: le_divide_eq)
  then show "0 \<le> p - of_int n * of_int \<lfloor>p / of_int n\<rfloor>"
    by (simp add: mult.commute)
  have "p / of_int n < of_int \<lfloor>p / of_int n\<rfloor> + 1"
    using floor_correct [of "p / of_int n"] by simp
  then have "p < (of_int \<lfloor>p / of_int n\<rfloor> + 1) * of_int n"
    using pos by (simp add: divide_less_eq)
  then show "p - of_int n * of_int \<lfloor>p / of_int n\<rfloor> < of_int n"
    by (simp add: algebra_simps)
qed

lemma wrap_pos_range:
  assumes "0 < n" "0 \<le> p"
  shows "\<exists>q k. wrap_pos n p = Some q \<and> 0 \<le> k \<and> q = p - of_int n * of_int k
           \<and> 0 \<le> q \<and> q < of_int n"
proof (cases "p < of_int n")
  case True
  then have "wrap_pos n p = Some p" using assms(1) by (simp add: wrap_pos_closed)
  with True assms(2) show ?thesis by (intro exI [of _ p] exI [of _ 0]) simp
next
  case False
  then have ge: "of_int n \<le> p" by simp
  let ?k = "\<lfloor>p / of_int n\<rfloor>"
  have "wrap_pos n p = Some (p - of_int n * of_int ?k)"
    using False assms(1) by (simp add: wrap_pos_closed)
  moreover have "0 \<le> ?k" using floor_ge_one [OF assms(1) ge] by simp
  ultimately show ?thesis
    using frac_range [OF assms(1), of p]
    by (intro exI [of _ "p - of_int n * of_int ?k"] exI [of _ ?k]) simp
qed

lemma py_fmod_range:
  assumes "0 < n"
  shows "\<exists>m. py_fmod p n = Inr m \<and> 0 \<le> m \<and> m < of_int n \<and> 0 \<le> py_int m \<and> py_int m < n"
proof -
  let ?m = "p - of_int n * of_int \<lfloor>p / of_int n\<rfloor>"
  have m: "py_fmod p n = Inr ?m" using assms by (simp add: py_fmod_def)
  have r: "0 \<le> ?m" "?m < of_int n" using frac_range [OF assms, of p] by simp_all
  have "py_int ?m = \<lfloor>?m\<rfloor>" using r(1) by (simp add: py_int_def)
  moreover have "0 \<le> \<lfloor>?m\<rfloor>" using r(1) by simp
  moreover have "\<lfloor>?m\<rfloor> < n" using r(2) by (simp add: floor_less_iff)
  ultimately show ?thesis using m r by simp
qed

lemma wrapped_zero: "wrapped n st 0 = st"
  by (simp add: wrapped_def)

lemma wrap_state_steps:
  assumes n: "0 < n"
  shows "nat \<lfloor>pos_f st / of_int n\<rfloor> = k \<Longrightarrow>
     \<exists>j. wrap_count n st j
        \<and> (\<forall>m. wrap_state n (st\<lparr>meters_done := m\<rparr>) = Some (wrapped n (st\<lparr>meters_done := m\<rparr>) j))"
proof (induction k arbitrary: st rule: less_induct)
  case (less k)
  show ?case
  proof (cases "pos_f st < of_int n")
    case True
    then have "wrap_state n (st\<lparr>meters_done := m\<rparr>) = Some (st\<lparr>meters_done := m\<rparr>)" for m
      by (subst wrap_state.simps) simp
    moreover have "wrap_count n st 0" using True by (simp add: wrap_count_def)
    ultimately show ?thesis by (intro exI [of _ 0]) (simp add: wrapped_zero)
  next
    case False
    then have ge: "of_int n \<le> pos_f st" by simp
    have fl: "\<lfloor>(pos_f st - of_int n) / of_int n\<rfloor> = \<lfloor>pos_f st / of_int n\<rfloor> - 1"
      using n by (rule floor_sub_rail)
    have one: "1 \<le> \<lfloor>pos_f st / of_int n\<rfloor>" using n ge by (rule floor_ge_one)
    have "nat (\<lfloor>pos_f st / of_int n\<rfloor> - 1) < nat \<lfloor>pos_f st / of_int n\<rfloor>"
      using one by linarith
    then have smaller: "nat \<lfloor>(pos_f st - of_int n) / of_int n\<rfloor> < k"
      using less.prems by (simp only: fl)
    have nonneg: "0 \<le> pos_f st - of_int n" using ge by simp
    show ?thesis
    proof (cases "use_splits st")
      case True
      let ?s = "st\<lparr>pos_f := pos_f st - of_int n\<rparr>"
      have swap: "st\<lparr>meters_done := m, pos_f := pos_f st - of_int n\<rparr> = ?s\<lparr>meters_done := m\<rparr>" for m
        by simp
      have unfold: "wrap_state n (st\<lparr>meters_done := m\<rparr>) = wrap_state n (?s\<lparr>meters_done := m\<rparr>)" for m
        using ge True by (subst wrap_state.simps) (simp add: swap)
      have "nat \<lfloor>pos_f ?s / of_int n\<rfloor> < k" using smaller by simp
      from less.IH [OF this refl]
      obtain j where j: "wrap_count n ?s j"
        "\<And>m. wrap_state n (?s\<lparr>meters_done := m\<rparr>) = Some (wrapped n (?s\<lparr>meters_done := m\<rparr>) j)"
        by blast
      have eq: "wrapped n (?s\<lparr>meters_done := m\<rparr>) j = wrapped n (st\<lparr>meters_done := m\<rparr>) (j + 1)" for m
        using True by (simp add: wrapped_def algebra_simps)
      have "wrap_count n st (j + 1)"
        using j(1) True False nonneg by (auto simp: wrap_count_def algebra_simps)
      with unfold j(2) eq show ?thesis by (intro exI [of _ "j + 1"]) simp
    next
      case const: False
      show ?thesis
      proof (cases "traversals_needed st \<le> traversals_done st + 1")
        case True
        have "wrap_state n (st\<lparr>meters_done := m\<rparr>) = Some (wrapped n (st\<lparr>meters_done := m\<rparr>) 1)" for m
          using ge const True by (subst wrap_state.simps) (simp add: wrapped_def)
        moreover have "wrap_count n st 1"
          using const True False nonneg by (simp add: wrap_count_def)
        ultimately show ?thesis by blast
      next
        case more: False
        let ?s = "st\<lparr>pos_f := pos_f st - of_int n, traversals_done := traversals_done st + 1\<rparr>"
        have swap: "st\<lparr>meters_done := m, pos_f := pos_f st - of_int n,
            traversals_done := traversals_done st + 1\<rparr> = ?s\<lparr>meters_done := m\<rparr>" for m
          by simp
        have unfold: "wrap_state n (st\<lparr>meters_done := m\<rparr>) = wrap_state n (?s\<lparr>meters_done := m\<rparr>)" for m
          using ge const more by (subst wrap_state.simps) (simp add: swap)
        have "nat \<lfloor>pos_f ?s / of_int n\<rfloor> < k" using smaller by simp
        from less.IH [OF this refl]
        obtain j where j: "wrap_count n ?s j"
          "\<And>m. wrap_state n (?s\<lparr>meters_done := m\<rparr>) = Some (wrapped n (?s\<lparr>meters_done := m\<rparr>) j)"
          by blast
        have j0: "0 \<le> j" using j(1) by (simp add: wrap_count_def)
        have eq: "wrapped n (?s\<lparr>meters_done := m\<rparr>) j = wrapped n (st\<lparr>meters_done := m\<rparr>) (j + 1)" for m
        proof (cases "j = 0")
          case True
          with const more show ?thesis by (simp add: wrapped_def)
        next
          case False
          with j0 have "1 \<le> j" by simp
          with const show ?thesis by (simp add: wrapped_def algebra_simps)
        qed
        have "wrap_count n st (j + 1)"
          using j(1) const more False nonneg by (auto simp: wrap_count_def algebra_simps)
        with unfold j(2) eq show ?thesis by (intro exI [of _ "j + 1"]) simp
      qed
    qed
  qed
qed

lemma wrap_state_returns:
  assumes "0 < n"
  shows "\<exists>j. wrap_count n st j
        \<and> (\<forall>m. wrap_state n (st\<lparr>meters_done := m\<rparr>) = Some (wrapped n (st\<lparr>meters_done := m\<rparr>) j))"
  using assms by (rule wrap_state_steps) simp

lemma wrap_state_wrapped:
  assumes "0 < n"
  shows "\<exists>j. wrap_count n st j \<and> wrap_state n st = Some (wrapped n st j)"
proof -
  obtain j where j: "wrap_count n st j"
    "\<And>m. wrap_state n (st\<lparr>meters_done := m\<rparr>) = Some (wrapped n (st\<lparr>meters_done := m\<rparr>) j)"
    using wrap_state_returns [OF assms] by blast
  from j(2) [of "meters_done st"] have "wrap_state n st = Some (wrapped n st j)" by simp
  with j(1) show ?thesis by blast
qed

section \<open>One tick\<close>

subsection \<open>A state of the compositor\<close>

lemma wrapped_fields [simp]:
  "ev (wrapped n st j) = ev st" "use_splits (wrapped n st j) = use_splits st"
  "meters_done (wrapped n st j) = meters_done st"
  "traversals_needed (wrapped n st j) = traversals_needed st"
  "trail_levels (wrapped n st j) = trail_levels st"
  "leds_per_sec (wrapped n st j) = leds_per_sec st"
  by (simp_all add: wrapped_def)

lemma advanced_fields [simp]:
  "ev (advanced st v mps) = ev st" "use_splits (advanced st v mps) = use_splits st"
  "meters_done (advanced st v mps) = meters_done st + mps * frame_dt_target"
  "pos_f (advanced st v mps) = pos_f st + v * frame_dt_target"
  "traversals_needed (advanced st v mps) = traversals_needed st"
  "traversals_done (advanced st v mps) = traversals_done st"
  "done_flag (advanced st v mps) = done_flag st"
  by (simp_all add: advanced_def)









subsection \<open>The tick of the compositor\<close>


















lemma ex_tick_value:
  "tick_parallel 8 NoFault [ex_const_state, ex_split_state] ex_rail8
     = Continue [ex_const_done, ex_split_done] (ex_rail8\<lparr>frames := [replicate 8 0]\<rparr>)"
  by code_simp


subsection \<open>The ticks of the single-event loops\<close>

lemma tick_const_unfold:
  assumes "py_div lps lpm = Inr mps"
    and "wrap_pos n (pos_f tr + lps * frame_dt_target) = Some p"
  shows "tick_const evt n lps lpm levels f tr w =
     (if of_int (distance_m evt) \<le> meters_done tr + mps * frame_dt_target
        then Break (tr\<lparr>pos_f := p, meters_done := meters_done tr + mps * frame_dt_target\<rparr>) w
      else
        (case draw_trail store_col (py_int p) (trail_len evt) (enumerate 0 levels)
                (blank_frame n) of
           Inl e \<Rightarrow> Raise e w
         | Inr fb \<Rightarrow>
             (case push_and_show f fb w of
                Inl (e, w1) \<Rightarrow> Raise e w1
              | Inr w1 \<Rightarrow>
                  Continue (tr\<lparr>pos_f := p,
                                meters_done := meters_done tr + mps * frame_dt_target\<rparr>) w1)))"
  using assms by (simp add: tick_const_def Let_def)

lemma tick_const_result:
  assumes "tick_const evt n lps lpm levels f tr w = Continue tr1 w1
           \<or> tick_const evt n lps lpm levels f tr w = Break tr1 w1"
  shows "\<exists>mps p. py_div lps lpm = Inr mps
           \<and> wrap_pos n (pos_f tr + lps * frame_dt_target) = Some p
           \<and> tr1 = tr\<lparr>pos_f := p, meters_done := meters_done tr + mps * frame_dt_target\<rparr>"
proof -
  obtain mps where mps: "py_div lps lpm = Inr mps"
    using assms by (cases "py_div lps lpm") (auto simp: tick_const_def)
  obtain p where p: "wrap_pos n (pos_f tr + lps * frame_dt_target) = Some p"
    using assms mps
    by (cases "wrap_pos n (pos_f tr + lps * frame_dt_target)") (auto simp: tick_const_def Let_def)
  from assms tick_const_unfold [OF mps p, of evt levels f w]
  have "tr1 = tr\<lparr>pos_f := p, meters_done := meters_done tr + mps * frame_dt_target\<rparr>"
    by (auto split: if_splits sum.splits prod.splits)
  with mps p show ?thesis by blast
qed

lemma tick_splits_unfold:
  assumes "split_velocity splits lpm (meters_done tr) = Inr v" and "py_div v lpm = Inr mps"
    and "py_fmod (pos_f tr + v * frame_dt_target) n = Inr m"
  shows "tick_splits evt n splits lpm levels f tr w =
     (case draw_trail store_col (py_int m) (trail_len evt) (enumerate 0 levels)
             (blank_frame n) of
        Inl e \<Rightarrow> Raise e w
      | Inr fb \<Rightarrow>
          (case push_and_show f fb w of
             Inl (e, w1) \<Rightarrow> Raise e w1
           | Inr w1 \<Rightarrow>
               if of_int (distance_m evt) \<le> meters_done tr + mps * frame_dt_target
               then Break (tr\<lparr>pos_f := pos_f tr + v * frame_dt_target,
                              meters_done := meters_done tr + mps * frame_dt_target\<rparr>) w1
               else Continue (tr\<lparr>pos_f := pos_f tr + v * frame_dt_target,
                                 meters_done := meters_done tr + mps * frame_dt_target\<rparr>) w1))"
  using assms by (simp add: tick_splits_def Let_def split: sum.splits prod.splits)

lemma tick_splits_result:
  assumes "tick_splits evt n splits lpm levels f tr w = Continue tr1 w1
           \<or> tick_splits evt n splits lpm levels f tr w = Break tr1 w1"
  shows "\<exists>v mps m. split_velocity splits lpm (meters_done tr) = Inr v
           \<and> py_div v lpm = Inr mps
           \<and> py_fmod (pos_f tr + v * frame_dt_target) n = Inr m
           \<and> tr1 = tr\<lparr>pos_f := pos_f tr + v * frame_dt_target,
                       meters_done := meters_done tr + mps * frame_dt_target\<rparr>"
proof -
  obtain v where v: "split_velocity splits lpm (meters_done tr) = Inr v"
    using assms by (cases "split_velocity splits lpm (meters_done tr)") (auto simp: tick_splits_def)
  obtain mps where mps: "py_div v lpm = Inr mps"
    using assms v by (cases "py_div v lpm") (auto simp: tick_splits_def)
  obtain m where m: "py_fmod (pos_f tr + v * frame_dt_target) n = Inr m"
    using assms v mps
    by (cases "py_fmod (pos_f tr + v * frame_dt_target) n") (auto simp: tick_splits_def Let_def)
  from assms tick_splits_unfold [OF v mps m, of evt levels f w]
  have "tr1 = tr\<lparr>pos_f := pos_f tr + v * frame_dt_target,
                       meters_done := meters_done tr + mps * frame_dt_target\<rparr>"
    by (auto split: if_splits sum.splits prod.splits)
  with v mps m show ?thesis by blast
qed

lemma frame_dt_pos: "0 < frame_dt_target"
  by (simp add: frame_dt_target_def MAX_FPS_def)

text \<open>
  C3, as the claim states it, fails.  The single-event split-pace loop never wraps its
  position: started at LED 7 of 8, the position is 113/14 > 8 after nine ticks.  And
  the compositor counts no traversal for a split-pace state: a wrap from 7.99 past
  the end of the rail leaves \<open>traversals_done\<close> at 0.
\<close>

theorem position_not_always_normalised:
  "loop_state (run_loop (tick_splits ex_sprint 8 [7, 7, 7, 7, 7, 7] 1 (precompute_trail ex_sprint))
       (replicate 9 (Tick NoFault)) \<lparr>pos_f = 7, meters_done = 0\<rparr>
       (try_push_frame NoFault (blank_frame 8) (ex_rail8\<lparr>running := True\<rparr>)))
     = Some \<lparr>pos_f = 113 / 14, meters_done = 15 / 14\<rparr>
   \<and> step_state 8 (ex_split_state\<lparr>pos_f := 799 / 100, meters_done := 50\<rparr>) (blank_frame 8)
     = Some (Inr (ex_split_state\<lparr>pos_f := 229 / 2100, meters_done := 2105 / 42\<rparr>,
                  (0, 200, 0) # replicate 7 (0, 0, 0)))"
  by code_simp

text \<open>
  C3, amended.  On a rail of \<open>n > 0\<close> pixels and from a position that is not negative:
  the wrap loop of the constant-pace run returns, after some number \<open>k\<close> of
  subtractions, a position in \<open>[0, n)\<close>, and so the tracker is in that range after
  every tick of that run; the split-pace run leaves its position where the advance
  put it, and only the head index \<open>int(pos % n)\<close> lies in \<open>[0, n)\<close>; the wrap loop
  of the compositor returns after some number \<open>j\<close> of subtractions with a position
  that is not negative and is below \<open>n\<close> unless a constant-pace state has just been
  marked done, and it adds \<open>j\<close> to the traversal count of a constant-pace state and
  nothing to that of a split-pace state.
\<close>

theorem wrap_normalises:
  assumes "0 < n"
  shows
   "(0 \<le> p \<longrightarrow>
       (\<exists>q k. wrap_pos n p = Some q \<and> 0 \<le> k \<and> q = p - of_int n * of_int k
              \<and> 0 \<le> q \<and> q < of_int n))
  \<and> (0 \<le> pos_f tr \<and> 0 \<le> lps
       \<and> (tick_const evt n lps lpm levels f tr w = Continue tr1 w1
            \<or> tick_const evt n lps lpm levels f tr w = Break tr1 w1) \<longrightarrow>
         0 \<le> pos_f tr1 \<and> pos_f tr1 < of_int n)
  \<and> (tick_splits evt n splits lpm levels f tr w = Continue tr1 w1
       \<or> tick_splits evt n splits lpm levels f tr w = Break tr1 w1 \<longrightarrow>
         (\<exists>v m. split_velocity splits lpm (meters_done tr) = Inr v
            \<and> pos_f tr1 = pos_f tr + v * frame_dt_target
            \<and> py_fmod (pos_f tr1) n = Inr m \<and> 0 \<le> py_int m \<and> py_int m < n))
  \<and> (0 \<le> pos_f st \<longrightarrow>
       (\<exists>j. wrap_state n st = Some (wrapped n st j) \<and> 0 \<le> j
          \<and> pos_f (wrapped n st j) = pos_f st - of_int n * of_int j
          \<and> traversals_done (wrapped n st j)
               = traversals_done st + (if use_splits st then 0 else j)
          \<and> 0 \<le> pos_f (wrapped n st j)
          \<and> (pos_f (wrapped n st j) < of_int n
               \<or> (\<not> use_splits st \<and> done_flag (wrapped n st j)))))"
proof (intro conjI impI)
  assume "0 \<le> p"
  with assms show "\<exists>q k. wrap_pos n p = Some q \<and> 0 \<le> k \<and> q = p - of_int n * of_int k
              \<and> 0 \<le> q \<and> q < of_int n"
    by (rule wrap_pos_range)
next
  assume h: "0 \<le> pos_f tr \<and> 0 \<le> lps
       \<and> (tick_const evt n lps lpm levels f tr w = Continue tr1 w1
            \<or> tick_const evt n lps lpm levels f tr w = Break tr1 w1)"
  then obtain mps q where q: "wrap_pos n (pos_f tr + lps * frame_dt_target) = Some q"
    and tr1: "tr1 = tr\<lparr>pos_f := q, meters_done := meters_done tr + mps * frame_dt_target\<rparr>"
    using tick_const_result [of evt n lps lpm levels f tr w tr1 w1] by blast
  have "0 \<le> pos_f tr + lps * frame_dt_target"
    using h frame_dt_pos by simp
  from wrap_pos_range [OF assms this] q have "0 \<le> q \<and> q < of_int n" by auto
  with tr1 show "0 \<le> pos_f tr1" and "pos_f tr1 < of_int n" by simp_all
next
  assume h: "tick_splits evt n splits lpm levels f tr w = Continue tr1 w1
       \<or> tick_splits evt n splits lpm levels f tr w = Break tr1 w1"
  from tick_splits_result [OF h] obtain v mps where
    v: "split_velocity splits lpm (meters_done tr) = Inr v"
    and tr1: "tr1 = tr\<lparr>pos_f := pos_f tr + v * frame_dt_target,
                       meters_done := meters_done tr + mps * frame_dt_target\<rparr>"
    by blast
  from py_fmod_range [OF assms, of "pos_f tr1"] v tr1
  show "\<exists>v m. split_velocity splits lpm (meters_done tr) = Inr v
            \<and> pos_f tr1 = pos_f tr + v * frame_dt_target
            \<and> py_fmod (pos_f tr1) n = Inr m \<and> 0 \<le> py_int m \<and> py_int m < n"
    by auto
next
  assume p0: "0 \<le> pos_f st"
  obtain j where c: "wrap_count n st j" and w: "wrap_state n st = Some (wrapped n st j)"
    using wrap_state_wrapped [OF assms] by blast
  have pos: "pos_f (wrapped n st j) = pos_f st - of_int n * of_int j"
    and tc: "traversals_done (wrapped n st j) = traversals_done st + (if use_splits st then 0 else j)"
    by (simp_all add: wrapped_def)
  have j0: "0 \<le> j" using c by (simp add: wrap_count_def)
  have lo: "0 \<le> pos_f st - of_int n * of_int j"
  proof (cases "j = 0")
    case True
    with p0 show ?thesis by simp
  next
    case False
    with j0 have "1 \<le> j" by simp
    with c show ?thesis by (simp add: wrap_count_def)
  qed
  have hi: "pos_f st - of_int n * of_int j < of_int n
      \<or> (\<not> use_splits st \<and> done_flag (wrapped n st j))"
    using c by (auto simp: wrap_count_def wrapped_def)
  from w j0 pos tc lo hi
  show "\<exists>j. wrap_state n st = Some (wrapped n st j) \<and> 0 \<le> j
          \<and> pos_f (wrapped n st j) = pos_f st - of_int n * of_int j
          \<and> traversals_done (wrapped n st j)
               = traversals_done st + (if use_splits st then 0 else j)
          \<and> 0 \<le> pos_f (wrapped n st j)
          \<and> (pos_f (wrapped n st j) < of_int n
               \<or> (\<not> use_splits st \<and> done_flag (wrapped n st j)))"
    by (intro exI [of _ j]) simp
qed

theorem wrap_normalises_witness:
  "0 < (8::int) \<and> 0 \<le> (17 / 2 :: rat)
   \<and> (\<exists>q k. wrap_pos 8 (17 / 2) = Some q \<and> 0 \<le> k \<and> q = 17 / 2 - of_int 8 * of_int k
          \<and> 0 \<le> q \<and> q < of_int 8)
   \<and> wrap_pos 8 (17 / 2) = Some (1 / 2)
   \<and> tick_const ex_lap8 8 (2 / 15) (1 / 50) (precompute_trail ex_lap8) NoFault
         \<lparr>pos_f = 7999 / 1000, meters_done = 399\<rparr> ex_rail8
       = Continue \<lparr>pos_f = 1 / 9000, meters_done = 7183 / 18\<rparr> ex_head0
   \<and> 0 \<le> pos_f \<lparr>pos_f = 1 / 9000, meters_done = 7183 / 18\<rparr>
   \<and> pos_f \<lparr>pos_f = 1 / 9000, meters_done = 7183 / 18\<rparr> < of_int 8
   \<and> tick_splits ex_sprint 8 [7, 7, 7, 7, 7, 7] 1 (precompute_trail ex_sprint) NoFault
         \<lparr>pos_f = 799 / 100, meters_done = 50\<rparr> ex_rail8
       = Continue \<lparr>pos_f = 17029 / 2100, meters_done = 2105 / 42\<rparr> ex_head0
   \<and> (\<exists>v m. split_velocity [7, 7, 7, 7, 7, 7] 1 (meters_done \<lparr>pos_f = 799 / 100, meters_done = 50\<rparr>) = Inr v
          \<and> pos_f \<lparr>pos_f = 17029 / 2100, meters_done = 2105 / 42\<rparr>
               = pos_f \<lparr>pos_f = 799 / 100, meters_done = 50\<rparr> + v * frame_dt_target
          \<and> py_fmod (pos_f \<lparr>pos_f = 17029 / 2100, meters_done = 2105 / 42\<rparr>) 8 = Inr m
          \<and> 0 \<le> py_int m \<and> py_int m < 8)
   \<and> 0 \<le> pos_f (ex_split_state\<lparr>pos_f := 17\<rparr>)
   \<and> (\<exists>j. wrap_state 8 (ex_split_state\<lparr>pos_f := 17\<rparr>)
              = Some (wrapped 8 (ex_split_state\<lparr>pos_f := 17\<rparr>) j)
          \<and> 0 \<le> j
          \<and> pos_f (wrapped 8 (ex_split_state\<lparr>pos_f := 17\<rparr>) j)
               = pos_f (ex_split_state\<lparr>pos_f := 17\<rparr>) - of_int 8 * of_int j
          \<and> traversals_done (wrapped 8 (ex_split_state\<lparr>pos_f := 17\<rparr>) j)
               = traversals_done (ex_split_state\<lparr>pos_f := 17\<rparr>)
                 + (if use_splits (ex_split_state\<lparr>pos_f := 17\<rparr>) then 0 else j)
          \<and> 0 \<le> pos_f (wrapped 8 (ex_split_state\<lparr>pos_f := 17\<rparr>) j)
          \<and> (pos_f (wrapped 8 (ex_split_state\<lparr>pos_f := 17\<rparr>) j) < of_int 8
               \<or> (\<not> use_splits (ex_split_state\<lparr>pos_f := 17\<rparr>)
                    \<and> done_flag (wrapped 8 (ex_split_state\<lparr>pos_f := 17\<rparr>) j))))
   \<and> wrap_state 8 (ex_split_state\<lparr>pos_f := 17\<rparr>) = Some (ex_split_state\<lparr>pos_f := 1\<rparr>)"
proof -
  have n: "0 < (8::int)" by simp
  note t = wrap_normalises [OF n, where p = "17 / 2" and evt = ex_lap8 and lps = "2 / 15"
      and lpm = "1 / 50" and levels = "precompute_trail ex_lap8" and f = NoFault
      and tr = "\<lparr>pos_f = 7999 / 1000, meters_done = 399\<rparr>" and w = ex_rail8
      and ?tr1.0 = "\<lparr>pos_f = 1 / 9000, meters_done = 7183 / 18\<rparr>" and ?w1.0 = ex_head0]
  note u = wrap_normalises [OF n, where evt = ex_sprint and splits = "[7, 7, 7, 7, 7, 7]"
      and lpm = 1 and levels = "precompute_trail ex_sprint" and f = NoFault
      and tr = "\<lparr>pos_f = 799 / 100, meters_done = 50\<rparr>" and w = ex_rail8
      and ?tr1.0 = "\<lparr>pos_f = 17029 / 2100, meters_done = 2105 / 42\<rparr>" and ?w1.0 = ex_head0
      and st = "ex_split_state\<lparr>pos_f := 17\<rparr>"]
  have p: "0 \<le> (17 / 2 :: rat)" by simp
  have a: "wrap_pos 8 (17 / 2) = Some (1 / 2)" by code_simp
  have b: "tick_const ex_lap8 8 (2 / 15) (1 / 50) (precompute_trail ex_lap8) NoFault
         \<lparr>pos_f = 7999 / 1000, meters_done = 399\<rparr> ex_rail8
       = Continue \<lparr>pos_f = 1 / 9000, meters_done = 7183 / 18\<rparr> ex_head0"
    by code_simp
  have c: "tick_splits ex_sprint 8 [7, 7, 7, 7, 7, 7] 1 (precompute_trail ex_sprint) NoFault
         \<lparr>pos_f = 799 / 100, meters_done = 50\<rparr> ex_rail8
       = Continue \<lparr>pos_f = 17029 / 2100, meters_done = 2105 / 42\<rparr> ex_head0"
    by code_simp
  have d: "0 \<le> pos_f (ex_split_state\<lparr>pos_f := 17\<rparr>)" by simp
  have e: "wrap_state 8 (ex_split_state\<lparr>pos_f := 17\<rparr>) = Some (ex_split_state\<lparr>pos_f := 1\<rparr>)"
    by code_simp
  note t1 = t [THEN conjunct1, rule_format, OF p]
  have b0: "0 \<le> pos_f \<lparr>pos_f = 7999 / 1000, meters_done = 399\<rparr> \<and> 0 \<le> (2 / 15 :: rat)
       \<and> (tick_const ex_lap8 8 (2 / 15) (1 / 50) (precompute_trail ex_lap8) NoFault
         \<lparr>pos_f = 7999 / 1000, meters_done = 399\<rparr> ex_rail8
            = Continue \<lparr>pos_f = 1 / 9000, meters_done = 7183 / 18\<rparr> ex_head0
          \<or> tick_const ex_lap8 8 (2 / 15) (1 / 50) (precompute_trail ex_lap8) NoFault
         \<lparr>pos_f = 7999 / 1000, meters_done = 399\<rparr> ex_rail8
            = Break \<lparr>pos_f = 1 / 9000, meters_done = 7183 / 18\<rparr> ex_head0)"
    using b by simp
  note t2 = t [THEN conjunct2, THEN conjunct1, rule_format, OF b0]
  note u3 = u [THEN conjunct2, THEN conjunct2, THEN conjunct1, rule_format, OF disjI1, OF c]
  note u4 = u [THEN conjunct2, THEN conjunct2, THEN conjunct2, rule_format, OF d]
  from n p t1 a b t2 c u3 d u4 e show ?thesis by (intro conjI) (rule TrueI | assumption | simp)+
qed










section \<open>Failures of the pixel sink\<close>

lemma push_pixels_no_fault:
  "push_pixels NoFault xs w = push_pixels ShowFault xs w"
  by (induction xs arbitrary: w) auto

lemma push_pixels_keeps:
  "push_pixels ShowFault xs w = Inr w1 \<Longrightarrow> frames w1 = frames w \<and> warnings w1 = warnings w"
  by (induction xs arbitrary: w) (auto simp: setPixelColor_def)

lemma push_pixels_returns: "\<exists>w1. push_pixels ShowFault xs w = Inr w1"
  by (induction xs arbitrary: w) auto

lemma push_and_show_fault:
  "\<exists>w2. push_and_show NoFault fb w = Inr w2
      \<and> push_and_show ShowFault fb w = Inr (show_missed w w2)"
proof -
  obtain w1 where w1: "push_pixels ShowFault (enumerate 0 fb) w = Inr w1"
    using push_pixels_returns by blast
  from push_pixels_keeps [OF w1] have k: "frames w1 = frames w" "warnings w1 = warnings w"
    by simp_all
  have a: "push_and_show NoFault fb w = Inr (w1\<lparr>frames := frames w1 @ [pixels w1]\<rparr>)"
    using w1 by (simp add: push_and_show_def push_pixels_no_fault strip_show_def)
  have b: "push_and_show ShowFault fb w = Inr (w1\<lparr>warnings := warnings w1 + 1\<rparr>)"
    using w1 by (simp add: push_and_show_def strip_show_def)
  have "show_missed w (w1\<lparr>frames := frames w1 @ [pixels w1]\<rparr>) = w1\<lparr>warnings := warnings w1 + 1\<rparr>"
    using k by (simp add: show_missed_def)
  with a b show ?thesis by simp
qed

lemma push_and_show_ShowFault:
  "push_and_show ShowFault fb w =
     (case push_and_show NoFault fb w of
        Inl x \<Rightarrow> Inl x
      | Inr w2 \<Rightarrow> Inr (show_missed w w2))"
  using push_and_show_fault [of fb w] by auto

lemma tick_const_show_fault:
  "tick_const evt n lps lpm levels ShowFault tr w =
     (case tick_const evt n lps lpm levels NoFault tr w of
        Continue tr1 w2 \<Rightarrow> Continue tr1 (show_missed w w2)
      | Break tr1 w2 \<Rightarrow> Break tr1 w2
      | Raise e w2 \<Rightarrow> Raise e w2
      | Hang \<Rightarrow> Hang)"
  unfolding tick_const_def Let_def push_and_show_ShowFault
  by (simp split: sum.splits option.splits prod.splits)

lemma tick_splits_show_fault:
  "tick_splits evt n splits lpm levels ShowFault tr w =
     (case tick_splits evt n splits lpm levels NoFault tr w of
        Continue tr1 w2 \<Rightarrow> Continue tr1 (show_missed w w2)
      | Break tr1 w2 \<Rightarrow> Break tr1 (show_missed w w2)
      | Raise e w2 \<Rightarrow> Raise e w2
      | Hang \<Rightarrow> Hang)"
  unfolding tick_splits_def Let_def push_and_show_ShowFault
  by (simp split: sum.splits option.splits prod.splits)

lemma tick_parallel_show_fault:
  "tick_parallel n ShowFault sts w =
     (case tick_parallel n NoFault sts w of
        Continue s w2 \<Rightarrow> Continue s (show_missed w w2)
      | Break s w2 \<Rightarrow> Break s (show_missed w w2)
      | Raise e w2 \<Rightarrow> Raise e w2
      | Hang \<Rightarrow> Hang)"
  unfolding tick_parallel_def push_and_show_ShowFault
  by (simp split: sum.splits option.splits prod.splits)

text \<open>
  C9, as the claim states it, fails for a pixel write: inside the loops only \<open>show()\<close>
  stands under \<open>try\<close>.  When \<open>setPixelColor\<close> raises at pixel 3 of the first tick, each of
  the three runs ends with that exception: the second tick never runs, the rail is
  not cleared and \<open>running\<close> stays set.
\<close>

theorem set_pixel_failure_aborts:
  "run_event ex_short_const NoFault 0 [Tick (SetPixelFault 3), Tick NoFault] NoFault ex_rail8
     = Raised SinkError
         (ex_rail8\<lparr>pixels := 13107200 # replicate 7 0, frames := [replicate 8 0],
                   running := True\<rparr>)
   \<and> run_event ex_short_split NoFault 0 [Tick (SetPixelFault 3), Tick NoFault] NoFault ex_rail8
     = Raised SinkError
         (ex_rail8\<lparr>pixels := 13107200 # replicate 7 0, frames := [replicate 8 0],
                   running := True\<rparr>)
   \<and> run_events_parallel [ex_lap8] NoFault 0 [Tick (SetPixelFault 3), Tick NoFault] NoFault
       ex_rail8
     = Raised SinkError
         (ex_rail8\<lparr>pixels := 13107200 # replicate 7 0, frames := [replicate 8 0],
                   running := True\<rparr>)"
  by code_simp

text \<open>
  C9, amended.  A failure of \<open>show()\<close> during a tick is caught and logged: in every run
  mode the tick ends as the tick without the failure does, with the same tracker
  state, except that no frame is flushed and one warning is printed, and the loop
  goes on to its next event.
\<close>

theorem show_failure_survived:
  "tick_const evt n lps lpm levels ShowFault tr w =
     (case tick_const evt n lps lpm levels NoFault tr w of
        Continue tr1 w2 \<Rightarrow> Continue tr1 (show_missed w w2)
      | Break tr1 w2 \<Rightarrow> Break tr1 w2
      | Raise e w2 \<Rightarrow> Raise e w2
      | Hang \<Rightarrow> Hang)
   \<and> tick_splits evt n splits lpm levels ShowFault tr w =
     (case tick_splits evt n splits lpm levels NoFault tr w of
        Continue tr1 w2 \<Rightarrow> Continue tr1 (show_missed w w2)
      | Break tr1 w2 \<Rightarrow> Break tr1 (show_missed w w2)
      | Raise e w2 \<Rightarrow> Raise e w2
      | Hang \<Rightarrow> Hang)
   \<and> tick_parallel n ShowFault sts w =
     (case tick_parallel n NoFault sts w of
        Continue s w2 \<Rightarrow> Continue s (show_missed w w2)
      | Break s w2 \<Rightarrow> Break s (show_missed w w2)
      | Raise e w2 \<Rightarrow> Raise e w2
      | Hang \<Rightarrow> Hang)
   \<and> (body ShowFault st w = Continue st1 w1 \<longrightarrow>
        run_loop body (Tick ShowFault # es) st w = run_loop body es st1 w1)"
  by (simp add: tick_const_show_fault tick_splits_show_fault tick_parallel_show_fault)

theorem show_failure_survived_witness:
  "tick_const ex_short_const 8 (100 / 7) 1 (precompute_trail ex_short_const) ShowFault
       \<lparr>pos_f = 0, meters_done = 0\<rparr> ex_rail8
     = Continue \<lparr>pos_f = 5 / 42, meters_done = 5 / 42\<rparr>
         (ex_rail8\<lparr>pixels := 13107200 # replicate 7 0, warnings := 1\<rparr>)
   \<and> run_loop (tick_const ex_short_const 8 (100 / 7) 1 (precompute_trail ex_short_const))
         [Tick ShowFault, Tick NoFault] \<lparr>pos_f = 0, meters_done = 0\<rparr> ex_rail8
     = run_loop (tick_const ex_short_const 8 (100 / 7) 1 (precompute_trail ex_short_const))
         [Tick NoFault] \<lparr>pos_f = 5 / 42, meters_done = 5 / 42\<rparr>
         (ex_rail8\<lparr>pixels := 13107200 # replicate 7 0, warnings := 1\<rparr>)"
proof -
  have a: "tick_const ex_short_const 8 (100 / 7) 1 (precompute_trail ex_short_const) ShowFault
       \<lparr>pos_f = 0, meters_done = 0\<rparr> ex_rail8
     = Continue \<lparr>pos_f = 5 / 42, meters_done = 5 / 42\<rparr>
         (ex_rail8\<lparr>pixels := 13107200 # replicate 7 0, warnings := 1\<rparr>)"
    by code_simp
  note t = show_failure_survived [where body = "tick_const ex_short_const 8 (100 / 7) 1
        (precompute_trail ex_short_const)"
      and st = "\<lparr>pos_f = 0, meters_done = 0\<rparr>" and w = ex_rail8
      and ?st1.0 = "\<lparr>pos_f = 5 / 42, meters_done = 5 / 42\<rparr>"
      and ?w1.0 = "ex_rail8\<lparr>pixels := 13107200 # replicate 7 0, warnings := 1\<rparr>"
      and es = "[Tick NoFault]"]
  note b = t [THEN conjunct2, THEN conjunct2, THEN conjunct2, rule_format, OF a]
  from a b show ?thesis by (intro conjI)
qed

section \<open>The start of a run\<close>

lemma pack_black: "pack_color 0 0 0 COLOR_ORDER = 0"
  by (simp add: pack_color_def COLOR_ORDER_def)

lemma enumerate_replicate_Suc:
  "enumerate k (replicate (Suc m) x) = (k, x) # enumerate (Suc k) (replicate m x)"
  by simp

lemma push_pixels_blank:
  "k + m \<le> length (pixels w) \<Longrightarrow>
     push_pixels NoFault (enumerate k (replicate m (0, 0, 0))) w
       = Inr (w\<lparr>pixels := take k (pixels w) @ replicate m 0 @ drop (k + m) (pixels w)\<rparr>)"
proof (induction m arbitrary: k w)
  case 0
  then show ?case by simp
next
  case (Suc m)
  let ?w = "setPixelColor k 0 w"
  have len: "Suc k + m \<le> length (pixels ?w)"
    using Suc.prems by (simp add: setPixelColor_def)
  have k: "k < length (pixels w)" using Suc.prems by simp
  have "push_pixels NoFault (enumerate k (replicate (Suc m) (0, 0, 0))) w
      = push_pixels NoFault (enumerate (Suc k) (replicate m (0, 0, 0))) ?w"
    by (simp add: pack_black)
  also have "\<dots> = Inr (?w\<lparr>pixels := take (Suc k) (pixels ?w) @ replicate m 0
      @ drop (Suc k + m) (pixels ?w)\<rparr>)"
    using Suc.IH [OF len] .
  also have "take (Suc k) (pixels ?w) = take k (pixels w) @ [0]"
    using k by (simp add: setPixelColor_def take_Suc_conv_app_nth)
  also have "drop (Suc k + m) (pixels ?w) = drop (k + Suc m) (pixels w)"
    by (simp add: setPixelColor_def)
  finally show ?case
    by (simp add: setPixelColor_def replicate_append_same)
qed

lemma try_push_blank:
  "try_push_frame NoFault (blank_frame (numPixels w)) w
     = w\<lparr>pixels := replicate (length (pixels w)) 0,
          frames := frames w @ [replicate (length (pixels w)) 0]\<rparr>"
  using push_pixels_blank [of 0 "length (pixels w)" w]
  by (simp add: try_push_frame_def push_frame_def blank_frame_def numPixels_def strip_show_def)

lemma constant_velocity_ratio: "constant_velocity evt = pace_mps evt * led_ratio evt"
  by (simp add: constant_velocity_def led_ratio_def)

lemma leds_per_meter_ratio: "laps_m evt \<noteq> 0 \<Longrightarrow> leds_per_meter evt = Inr (led_ratio evt)"
  by (simp add: leds_per_meter_value led_ratio_def)

lemma start_position_mod:
  "0 < n \<Longrightarrow> start_position evt n = (case start_led evt of None \<Rightarrow> 0 | Some s \<Rightarrow> s mod n)"
  by (simp add: start_position_def split: option.splits)

lemma pre_advance_value:
  "lpm \<noteq> 0 \<Longrightarrow>
     pre_advance (mps * lpm) lpm d st
       = Inr (st\<lparr>pos_f := pos_f st + mps * lpm * d, meters_done := meters_done st + mps * d\<rparr>)"
  by (simp add: pre_advance_def py_div_def)

lemma first_split_hd: "splits \<noteq> [] \<Longrightarrow> 0 < hd splits \<Longrightarrow> first_split splits = hd splits"
  by (cases splits) (simp_all add: first_split_def)

lemma has_splits_of: "has_splits evt \<longleftrightarrow> splits_of evt \<noteq> []"
  by (simp add: has_splits_def splits_of_def split: option.splits)

lemma run_event_const_start:
  assumes n: "0 < numPixels w" and l: "laps_m evt \<noteq> 0" and v: "0 < constant_velocity evt"
    and c: "\<not> has_splits evt"
  shows "run_event evt startup elapsed trace cleanup w =
     conclude cleanup
       (run_loop (tick_const evt (numPixels w) (constant_velocity evt) (led_ratio evt)
            (precompute_trail evt)) trace
          \<lparr>pos_f = of_int (start_position evt (numPixels w))
                    + first_mps evt * led_ratio evt * max 0 elapsed,
            meters_done = first_mps evt * max 0 elapsed\<rparr>
          (try_push_frame startup (blank_frame (numPixels w)) (w\<lparr>running := True\<rparr>)))"
proof -
  have r: "led_ratio evt \<noteq> 0" using v by (auto simp: constant_velocity_ratio)
  have f: "first_mps evt = pace_mps evt" using c by (simp add: first_mps_def)
  have p: "pre_advance (pace_mps evt * led_ratio evt) (led_ratio evt) (max 0 elapsed)
       \<lparr>pos_f = of_int (start_position evt (numPixels w)), meters_done = 0\<rparr>
     = Inr \<lparr>pos_f = of_int (start_position evt (numPixels w))
                    + pace_mps evt * led_ratio evt * max 0 elapsed,
            meters_done = pace_mps evt * max 0 elapsed\<rparr>"
    using r by (simp add: pre_advance_def py_div_def)
  have "\<not> (pace_mps evt * led_ratio evt \<le> 0 \<or> numPixels w \<le> 0)"
    using n v by (simp add: constant_velocity_ratio)
  then show ?thesis
    using c p
    by (simp add: run_event_def run_event_const_def leds_per_meter_ratio [OF l] Let_def
        constant_velocity_ratio f numPixels_def)
qed

lemma run_event_splits_start:
  assumes l: "laps_m evt \<noteq> 0" and r: "rail_leds evt \<noteq> 0"
    and c: "has_splits evt" and s: "0 < hd (splits_of evt)"
  shows "run_event evt startup elapsed trace cleanup w =
     conclude cleanup
       (run_loop (tick_splits evt (numPixels w) (splits_of evt) (led_ratio evt)
            (precompute_trail evt)) trace
          \<lparr>pos_f = of_int (start_position evt (numPixels w))
                    + first_mps evt * led_ratio evt * max 0 elapsed,
            meters_done = first_mps evt * max 0 elapsed\<rparr>
          (try_push_frame startup (blank_frame (numPixels w)) (w\<lparr>running := True\<rparr>)))"
proof -
  have ne: "splits_of evt \<noteq> []" using c by (simp add: has_splits_of)
  have lr: "led_ratio evt \<noteq> 0" using l r by (simp add: led_ratio_def)
  have f: "first_mps evt = 100 / first_split (splits_of evt)"
    using c first_split_hd [OF ne s] by (simp add: first_mps_def)
  have p: "pre_advance (100 / first_split (splits_of evt) * led_ratio evt) (led_ratio evt)
       (max 0 elapsed) \<lparr>pos_f = of_int (start_position evt (numPixels w)), meters_done = 0\<rparr>
     = Inr \<lparr>pos_f = of_int (start_position evt (numPixels w))
                    + 100 / first_split (splits_of evt) * led_ratio evt * max 0 elapsed,
            meters_done = 100 / first_split (splits_of evt) * max 0 elapsed\<rparr>"
    using lr by (simp add: pre_advance_def py_div_def)
  show ?thesis
    using c ne p
    by (simp add: run_event_def run_event_with_splits_def run_splits_body_def
        leds_per_meter_ratio [OF l] Let_def f numPixels_def)
qed

lemma leds_per_meter_Inr: "leds_per_meter evt = Inr lpm \<Longrightarrow> laps_m evt \<noteq> 0 \<and> lpm = led_ratio evt"
  by (auto simp: leds_per_meter_def py_div_def led_ratio_def split: if_splits)

lemma init_states_fresh:
  "init_states n evs = Inr sts \<Longrightarrow> \<forall>st \<in> set sts. fresh_state n st \<and> ev st \<in> set evs"
proof (induction evs arbitrary: sts)
  case Nil
  then show ?case by simp
next
  case (Cons evt evs)
  from Cons.prems obtain lpm where lpm: "leds_per_meter evt = Inr lpm"
    by (cases "leds_per_meter evt") simp_all
  note r = leds_per_meter_Inr [OF lpm]
  show ?case
  proof (cases "pace_mps evt * lpm \<le> 0")
    case True
    with Cons.prems lpm have "init_states n evs = Inr sts" by simp
    from Cons.IH [OF this] show ?thesis by simp
  next
    case False
    with Cons.prems lpm obtain needed rest where
      rest: "init_states n evs = Inr rest"
      and sts: "sts = \<lparr>pos_f = of_int (start_position evt n), meters_done = 0,
                ev = evt, leds_per_sec = pace_mps evt * lpm, traversals_needed = needed,
                traversals_done = 0, use_splits = has_splits evt,
                done_flag = False, trail_levels = precompute_trail evt\<rparr> # rest"
      by (auto simp: Let_def split: sum.splits)
    have "fresh_state n (hd sts)"
      using sts r False by (simp add: fresh_state_def constant_velocity_ratio)
    with Cons.IH [OF rest] sts show ?thesis by simp
  qed
qed

lemma pre_advance_state_value:
  assumes f: "fresh_state n st" and s: "use_splits st \<longrightarrow> 0 < hd (splits_of (ev st))"
  shows "pre_advance_state d st = Inr (compensated d st)"
proof -
  from f have l: "laps_m (ev st) \<noteq> 0" and v: "leds_per_sec st = constant_velocity (ev st)"
    and p: "0 < leds_per_sec st" and u: "use_splits st = has_splits (ev st)"
    by (simp_all add: fresh_state_def)
  have r: "led_ratio (ev st) \<noteq> 0" using v p by (auto simp: constant_velocity_ratio)
  show ?thesis
  proof (cases "use_splits st")
    case True
    then have ne: "splits_of (ev st) \<noteq> []" using u by (simp add: has_splits_of)
    from True s have "0 < hd (splits_of (ev st))" by simp
    from first_split_hd [OF ne this] True u r show ?thesis
      by (simp add: pre_advance_state_def leds_per_meter_ratio [OF l] pre_advance_def py_div_def
          compensated_def first_mps_def)
  next
    case False
    with u v r show ?thesis
      by (simp add: pre_advance_state_def leds_per_meter_ratio [OF l] pre_advance_def py_div_def
          compensated_def first_mps_def constant_velocity_ratio)
  qed
qed

lemma pre_advance_all_value:
  "\<forall>st \<in> set sts. fresh_state n st \<and> (use_splits st \<longrightarrow> 0 < hd (splits_of (ev st))) \<Longrightarrow>
     pre_advance_all d sts = Inr (map (compensated d) sts)"
proof (induction sts)
  case Nil
  then show ?case by simp
next
  case (Cons st sts)
  from Cons.prems have "fresh_state n st" and "use_splits st \<longrightarrow> 0 < hd (splits_of (ev st))"
    by simp_all
  then have a: "pre_advance_state d st = Inr (compensated d st)"
    by (rule pre_advance_state_value)
  from Cons have b: "pre_advance_all d sts = Inr (map (compensated d) sts)"
    by simp
  from a b show ?case by simp
qed

lemma compensated_zero: "compensated 0 st = st"
  by (simp add: compensated_def)

lemma run_events_parallel_start:
  assumes e: "evs \<noteq> []" "length evs \<le> 2"
    and v: "validate (numPixels w) (laps_m (hd evs)) evs = None"
    and i: "init_states (numPixels w) evs = Inr sts" and ne: "sts \<noteq> []"
    and s: "\<forall>evt \<in> set evs. has_splits evt \<longrightarrow> 0 < hd (splits_of evt)"
  shows "run_events_parallel evs startup elapsed trace cleanup w =
     conclude cleanup
       (run_loop (tick_parallel (numPixels w)) trace (map (compensated (max 0 elapsed)) sts)
          ((try_push_frame startup (blank_frame (numPixels w)) w)\<lparr>running := True\<rparr>))"
proof -
  note fr = init_states_fresh [OF i]
  have good: "\<forall>st \<in> set sts. fresh_state (numPixels w) st
      \<and> (use_splits st \<longrightarrow> 0 < hd (splits_of (ev st)))"
    using fr s by (auto simp: fresh_state_def)
  have adv: "(if max 0 elapsed > 0 then pre_advance_all (max 0 elapsed) sts else Inr sts)
      = Inr (map (compensated (max 0 elapsed)) sts)"
  proof (cases "max 0 elapsed > 0")
    case True
    have "pre_advance_all (max 0 elapsed) sts = Inr (map (compensated (max 0 elapsed)) sts)"
      using good by (rule pre_advance_all_value)
    with True show ?thesis by (simp only: if_True)
  next
    case False
    then have z: "max 0 elapsed = 0" by simp
    have "map (compensated 0) sts = sts" by (induction sts) (simp_all add: compensated_zero)
    with False show ?thesis by (simp only: z if_False)
  qed
  show ?thesis
    unfolding run_events_parallel_def using e v i ne adv by (simp add: Let_def)
qed

text \<open>
  C4.  On a strip of \<open>n > 0\<close> pixels: the start position is \<open>start_led mod n\<close>, or 0 with
  no start LED; the start-up push of a working strip flushes one frame of zeros; and
  each run is its loop started from the tracker at the start position advanced by
  \<open>max(0, elapsed)\<close> times the first-segment velocity in LEDs per second, with
  \<open>meters_done\<close> 0 advanced by the same delay times that velocity in metres per
  second, in the world the start-up push left.  This is so for the constant-pace
  run (an event that runs: lap length not 0, velocity positive), for the split-pace run
  (first split positive, rail length of the event not 0) and for every state of a
  validated parallel submission.
\<close>

theorem startup_compensation:
  assumes "0 < numPixels w"
  shows
   "start_position evt (numPixels w)
      = (case start_led evt of None \<Rightarrow> 0 | Some s \<Rightarrow> s mod numPixels w)
  \<and> try_push_frame NoFault (blank_frame (numPixels w)) w
      = w\<lparr>pixels := replicate (length (pixels w)) 0,
           frames := frames w @ [replicate (length (pixels w)) 0]\<rparr>
  \<and> (laps_m evt \<noteq> 0 \<and> \<not> has_splits evt \<and> 0 < constant_velocity evt \<longrightarrow>
       run_event evt startup elapsed trace cleanup w =
         conclude cleanup
           (run_loop (tick_const evt (numPixels w) (constant_velocity evt) (led_ratio evt)
                (precompute_trail evt)) trace
              \<lparr>pos_f = of_int (start_position evt (numPixels w))
                        + first_mps evt * led_ratio evt * max 0 elapsed,
                meters_done = first_mps evt * max 0 elapsed\<rparr>
              (try_push_frame startup (blank_frame (numPixels w)) (w\<lparr>running := True\<rparr>))))
  \<and> (laps_m evt \<noteq> 0 \<and> rail_leds evt \<noteq> 0 \<and> has_splits evt \<and> 0 < hd (splits_of evt) \<longrightarrow>
       run_event evt startup elapsed trace cleanup w =
         conclude cleanup
           (run_loop (tick_splits evt (numPixels w) (splits_of evt) (led_ratio evt)
                (precompute_trail evt)) trace
              \<lparr>pos_f = of_int (start_position evt (numPixels w))
                        + first_mps evt * led_ratio evt * max 0 elapsed,
                meters_done = first_mps evt * max 0 elapsed\<rparr>
              (try_push_frame startup (blank_frame (numPixels w)) (w\<lparr>running := True\<rparr>))))
  \<and> (evs \<noteq> [] \<and> length evs \<le> 2 \<and> validate (numPixels w) (laps_m (hd evs)) evs = None
       \<and> init_states (numPixels w) evs = Inr sts \<and> sts \<noteq> []
       \<and> (\<forall>e \<in> set evs. has_splits e \<longrightarrow> 0 < hd (splits_of e)) \<longrightarrow>
       (\<forall>st \<in> set sts. pos_f st = of_int (start_position (ev st) (numPixels w))
                          \<and> meters_done st = 0)
       \<and> run_events_parallel evs startup elapsed trace cleanup w =
         conclude cleanup
           (run_loop (tick_parallel (numPixels w)) trace
              (map (compensated (max 0 elapsed)) sts)
              ((try_push_frame startup (blank_frame (numPixels w)) w)\<lparr>running := True\<rparr>)))"
proof (intro conjI impI)
  show "start_position evt (numPixels w)
      = (case start_led evt of None \<Rightarrow> 0 | Some s \<Rightarrow> s mod numPixels w)"
    using assms by (rule start_position_mod)
next
  show "try_push_frame NoFault (blank_frame (numPixels w)) w
      = w\<lparr>pixels := replicate (length (pixels w)) 0,
           frames := frames w @ [replicate (length (pixels w)) 0]\<rparr>"
    by (rule try_push_blank)
next
  assume "laps_m evt \<noteq> 0 \<and> \<not> has_splits evt \<and> 0 < constant_velocity evt"
  then show "run_event evt startup elapsed trace cleanup w =
         conclude cleanup
           (run_loop (tick_const evt (numPixels w) (constant_velocity evt) (led_ratio evt)
                (precompute_trail evt)) trace
              \<lparr>pos_f = of_int (start_position evt (numPixels w))
                        + first_mps evt * led_ratio evt * max 0 elapsed,
                meters_done = first_mps evt * max 0 elapsed\<rparr>
              (try_push_frame startup (blank_frame (numPixels w)) (w\<lparr>running := True\<rparr>)))"
    using assms by (simp add: run_event_const_start)
next
  assume "laps_m evt \<noteq> 0 \<and> rail_leds evt \<noteq> 0 \<and> has_splits evt \<and> 0 < hd (splits_of evt)"
  then show "run_event evt startup elapsed trace cleanup w =
         conclude cleanup
           (run_loop (tick_splits evt (numPixels w) (splits_of evt) (led_ratio evt)
                (precompute_trail evt)) trace
              \<lparr>pos_f = of_int (start_position evt (numPixels w))
                        + first_mps evt * led_ratio evt * max 0 elapsed,
                meters_done = first_mps evt * max 0 elapsed\<rparr>
              (try_push_frame startup (blank_frame (numPixels w)) (w\<lparr>running := True\<rparr>)))"
    by (simp add: run_event_splits_start)
next
  assume h: "evs \<noteq> [] \<and> length evs \<le> 2 \<and> validate (numPixels w) (laps_m (hd evs)) evs = None
       \<and> init_states (numPixels w) evs = Inr sts \<and> sts \<noteq> []
       \<and> (\<forall>e \<in> set evs. has_splits e \<longrightarrow> 0 < hd (splits_of e))"
  then have i: "init_states (numPixels w) evs = Inr sts" by simp
  from init_states_fresh [OF i]
  show "\<forall>st \<in> set sts. pos_f st = of_int (start_position (ev st) (numPixels w))
                          \<and> meters_done st = 0"
    by (simp add: fresh_state_def)
  from h show "run_events_parallel evs startup elapsed trace cleanup w =
         conclude cleanup
           (run_loop (tick_parallel (numPixels w)) trace
              (map (compensated (max 0 elapsed)) sts)
              ((try_push_frame startup (blank_frame (numPixels w)) w)\<lparr>running := True\<rparr>))"
    by (intro run_events_parallel_start) simp_all
qed

theorem startup_compensation_witness:
  "0 < numPixels ex_rail8
   \<and> start_position ex_sprint (numPixels ex_rail8) = 7
   \<and> try_push_frame NoFault (blank_frame (numPixels ex_rail8)) ex_rail8
       = ex_rail8\<lparr>frames := [replicate 8 0]\<rparr>
   \<and> laps_m ex_lap8 \<noteq> 0 \<and> \<not> has_splits ex_lap8 \<and> 0 < constant_velocity ex_lap8
   \<and> run_event ex_lap8 NoFault (3 / 100) [Stop] NoFault ex_rail8
       = conclude NoFault
           (run_loop (tick_const ex_lap8 8 (2 / 15) (1 / 50) (precompute_trail ex_lap8)) [Stop]
              \<lparr>pos_f = 1 / 250, meters_done = 1 / 5\<rparr>
              (ex_rail8\<lparr>frames := [replicate 8 0], running := True\<rparr>))
   \<and> laps_m ex_sprint \<noteq> 0 \<and> rail_leds ex_sprint \<noteq> 0 \<and> has_splits ex_sprint
   \<and> 0 < hd (splits_of ex_sprint)
   \<and> run_event ex_sprint NoFault (3 / 100) [Stop] NoFault ex_rail8
       = conclude NoFault
           (run_loop (tick_splits ex_sprint 8 [7, 7, 7, 7, 7, 7] 1 (precompute_trail ex_sprint))
              [Stop] \<lparr>pos_f = 52 / 7, meters_done = 3 / 7\<rparr>
              (ex_rail8\<lparr>frames := [replicate 8 0], running := True\<rparr>))
   \<and> validate (numPixels ex_rail8) (laps_m (hd [ex_lap8, ex_lap8_splits]))
         [ex_lap8, ex_lap8_splits] = None
   \<and> init_states (numPixels ex_rail8) [ex_lap8, ex_lap8_splits] = Inr ex_pair_states
   \<and> run_events_parallel [ex_lap8, ex_lap8_splits] NoFault (3 / 100) [Stop] NoFault ex_rail8
       = conclude NoFault
           (run_loop (tick_parallel 8) [Stop]
              [ex_const_state\<lparr>pos_f := 1 / 250, meters_done := 1 / 5\<rparr>,
               ex_const_state\<lparr>pos_f := 501 / 250, meters_done := 1 / 5, ev := ex_lap8_splits,
                               use_splits := True\<rparr>]
              (ex_rail8\<lparr>frames := [replicate 8 0], running := True\<rparr>))"
proof -
  have n: "0 < numPixels ex_rail8" by code_simp
  have n8: "numPixels ex_rail8 = 8" by code_simp
  have n8r: "numPixels (ex_rail8\<lparr>running := True\<rparr>) = 8" by code_simp
  note a = startup_compensation [OF n, where evt = ex_sprint and startup = NoFault and elapsed = "3 / 100"
      and trace = "[Stop]" and cleanup = NoFault and evs = "[ex_lap8, ex_lap8_splits]"
      and sts = ex_pair_states]
  note b = startup_compensation [OF n, where evt = ex_lap8 and startup = NoFault and elapsed = "3 / 100"
      and trace = "[Stop]" and cleanup = NoFault]
  have sp: "(case start_led ex_sprint of None \<Rightarrow> 0 | Some s \<Rightarrow> s mod numPixels ex_rail8) = 7"
    by code_simp
  have c1: "start_position ex_sprint (numPixels ex_rail8) = 7"
    using a [THEN conjunct1] sp by simp
  have fr: "ex_rail8\<lparr>pixels := replicate (length (pixels ex_rail8)) 0,
           frames := frames ex_rail8 @ [replicate (length (pixels ex_rail8)) 0]\<rparr>
      = ex_rail8\<lparr>frames := [replicate 8 0]\<rparr>"
    by code_simp
  have c2: "try_push_frame NoFault (blank_frame (numPixels ex_rail8)) ex_rail8
       = ex_rail8\<lparr>frames := [replicate 8 0]\<rparr>"
    using a [THEN conjunct2, THEN conjunct1] fr by simp
  have w2: "try_push_frame NoFault (blank_frame 8) (ex_rail8\<lparr>running := True\<rparr>)
      = ex_rail8\<lparr>frames := [replicate 8 0], running := True\<rparr>"
    by code_simp
  have w3: "(try_push_frame NoFault (blank_frame 8) ex_rail8)\<lparr>running := True\<rparr>
      = ex_rail8\<lparr>frames := [replicate 8 0], running := True\<rparr>"
    by code_simp
  have h3: "laps_m ex_lap8 \<noteq> 0 \<and> \<not> has_splits ex_lap8 \<and> 0 < constant_velocity ex_lap8"
    by code_simp
  have v3: "constant_velocity ex_lap8 = 2 / 15" "led_ratio ex_lap8 = 1 / 50"
    "start_position ex_lap8 8 = 0" "first_mps ex_lap8 = 20 / 3"
    by code_simp+
  have c3: "run_event ex_lap8 NoFault (3 / 100) [Stop] NoFault ex_rail8
       = conclude NoFault
           (run_loop (tick_const ex_lap8 8 (2 / 15) (1 / 50) (precompute_trail ex_lap8)) [Stop]
              \<lparr>pos_f = 1 / 250, meters_done = 1 / 5\<rparr>
              (ex_rail8\<lparr>frames := [replicate 8 0], running := True\<rparr>))"
    using b [THEN conjunct2, THEN conjunct2, THEN conjunct1, rule_format, OF h3]
    by (simp add: n8 v3 w2)
  have h4: "laps_m ex_sprint \<noteq> 0 \<and> rail_leds ex_sprint \<noteq> 0 \<and> has_splits ex_sprint
       \<and> 0 < hd (splits_of ex_sprint)"
    by code_simp
  have v4: "splits_of ex_sprint = [7, 7, 7, 7, 7, 7]" "led_ratio ex_sprint = 1"
    "start_position ex_sprint 8 = 7" "first_mps ex_sprint = 100 / 7"
    by code_simp+
  have c4: "run_event ex_sprint NoFault (3 / 100) [Stop] NoFault ex_rail8
       = conclude NoFault
           (run_loop (tick_splits ex_sprint 8 [7, 7, 7, 7, 7, 7] 1 (precompute_trail ex_sprint))
              [Stop] \<lparr>pos_f = 52 / 7, meters_done = 3 / 7\<rparr>
              (ex_rail8\<lparr>frames := [replicate 8 0], running := True\<rparr>))"
    using a [THEN conjunct2, THEN conjunct2, THEN conjunct2, THEN conjunct1, rule_format, OF h4]
    by (simp add: n8 v4 w2)
  have va: "validate (numPixels ex_rail8) (laps_m (hd [ex_lap8, ex_lap8_splits]))
         [ex_lap8, ex_lap8_splits] = None"
    by code_simp
  have ini: "init_states (numPixels ex_rail8) [ex_lap8, ex_lap8_splits] = Inr ex_pair_states"
    by code_simp
  have h5: "[ex_lap8, ex_lap8_splits] \<noteq> [] \<and> length [ex_lap8, ex_lap8_splits] \<le> 2
       \<and> validate (numPixels ex_rail8) (laps_m (hd [ex_lap8, ex_lap8_splits]))
            [ex_lap8, ex_lap8_splits] = None
       \<and> init_states (numPixels ex_rail8) [ex_lap8, ex_lap8_splits] = Inr ex_pair_states
       \<and> ex_pair_states \<noteq> []
       \<and> (\<forall>e \<in> set [ex_lap8, ex_lap8_splits]. has_splits e \<longrightarrow> 0 < hd (splits_of e))"
  proof -
    have l: "[ex_lap8, ex_lap8_splits] \<noteq> [] \<and> length [ex_lap8, ex_lap8_splits] \<le> 2"
      by simp
    have ne: "ex_pair_states \<noteq> []" by (simp add: ex_pair_states_def)
    have s1: "\<not> has_splits ex_lap8" and s2: "0 < hd (splits_of ex_lap8_splits)"
      by code_simp+
    from s1 s2 have sp: "\<forall>e \<in> set [ex_lap8, ex_lap8_splits]. has_splits e \<longrightarrow> 0 < hd (splits_of e)"
      by simp
    from l va ini ne sp show ?thesis by blast
  qed
  have v5: "map (compensated (max 0 (3 / 100))) ex_pair_states
      = [ex_const_state\<lparr>pos_f := 1 / 250, meters_done := 1 / 5\<rparr>,
         ex_const_state\<lparr>pos_f := 501 / 250, meters_done := 1 / 5, ev := ex_lap8_splits,
                         use_splits := True\<rparr>]"
    by code_simp
  have c5: "run_events_parallel [ex_lap8, ex_lap8_splits] NoFault (3 / 100) [Stop] NoFault ex_rail8
       = conclude NoFault
           (run_loop (tick_parallel 8) [Stop]
              [ex_const_state\<lparr>pos_f := 1 / 250, meters_done := 1 / 5\<rparr>,
               ex_const_state\<lparr>pos_f := 501 / 250, meters_done := 1 / 5, ev := ex_lap8_splits,
                               use_splits := True\<rparr>]
              (ex_rail8\<lparr>frames := [replicate 8 0], running := True\<rparr>))"
    using a [THEN conjunct2, THEN conjunct2, THEN conjunct2, THEN conjunct2, rule_format, OF h5,
        THEN conjunct2]
    by (simp only: n8 v5 w3)
  from n c1 c2 h3 c3 h4 c4 va ini c5 show ?thesis
    by (intro conjI) (rule TrueI | assumption | simp)+
qed

section \<open>Drawing the trail\<close>















lemma advanced_levels [simp]: "trail_levels (advanced st v mps) = trail_levels st"
  by (simp add: advanced_def)





end
